theory Spec2Isabelle
  imports Complex_Main "HOL-Library.Sublist"
begin

section \<open>JavaScript values\<close>

text \<open>
  The numbers of the program are JavaScript numbers. They are modelled by the exact
  rationals together with the three non-finite values. Rounding of doubles and the sign
  of zero are not modelled: a zero divisor counts as positive zero.
\<close>

datatype jsnum = Fin rat | PosInf | NegInf | NaN

datatype jsval = Num jsnum | Undefined

fun toNumber :: "jsval \<Rightarrow> jsnum" where
  "toNumber (Num n) = n"
| "toNumber Undefined = NaN"

fun js_neg :: "jsnum \<Rightarrow> jsnum" where
  "js_neg (Fin a) = Fin (- a)"
| "js_neg PosInf = NegInf"
| "js_neg NegInf = PosInf"
| "js_neg NaN = NaN"

fun js_add :: "jsnum \<Rightarrow> jsnum \<Rightarrow> jsnum" where
  "js_add NaN _ = NaN"
| "js_add _ NaN = NaN"
| "js_add (Fin a) (Fin b) = Fin (a + b)"
| "js_add PosInf NegInf = NaN"
| "js_add NegInf PosInf = NaN"
| "js_add PosInf _ = PosInf"
| "js_add NegInf _ = NegInf"
| "js_add (Fin a) PosInf = PosInf"
| "js_add (Fin a) NegInf = NegInf"

definition js_sub :: "jsnum \<Rightarrow> jsnum \<Rightarrow> jsnum" where
  "js_sub a b = js_add a (js_neg b)"

definition signed_inf :: "bool \<Rightarrow> jsnum" where
  "signed_inf negative = (if negative then NegInf else PosInf)"

fun js_mul :: "jsnum \<Rightarrow> jsnum \<Rightarrow> jsnum" where
  "js_mul NaN _ = NaN"
| "js_mul _ NaN = NaN"
| "js_mul (Fin a) (Fin b) = Fin (a * b)"
| "js_mul PosInf PosInf = PosInf"
| "js_mul NegInf NegInf = PosInf"
| "js_mul PosInf NegInf = NegInf"
| "js_mul NegInf PosInf = NegInf"
| "js_mul (Fin a) PosInf = (if a = 0 then NaN else signed_inf (a < 0))"
| "js_mul (Fin a) NegInf = (if a = 0 then NaN else signed_inf (0 < a))"
| "js_mul PosInf (Fin b) = (if b = 0 then NaN else signed_inf (b < 0))"
| "js_mul NegInf (Fin b) = (if b = 0 then NaN else signed_inf (0 < b))"

fun js_div :: "jsnum \<Rightarrow> jsnum \<Rightarrow> jsnum" where
  "js_div NaN _ = NaN"
| "js_div _ NaN = NaN"
| "js_div (Fin a) (Fin b) =
     (if b = 0 then (if a = 0 then NaN else signed_inf (a < 0)) else Fin (a / b))"
| "js_div (Fin a) PosInf = Fin 0"
| "js_div (Fin a) NegInf = Fin 0"
| "js_div PosInf (Fin b) = signed_inf (b < 0)"
| "js_div NegInf (Fin b) = signed_inf (\<not> b < 0)"
| "js_div PosInf _ = NaN"
| "js_div NegInf _ = NaN"

text \<open>\<open>a == b\<close> on two numbers: \<open>NaN\<close> equals nothing, itself included.\<close>

definition js_eq :: "jsnum \<Rightarrow> jsnum \<Rightarrow> bool" where
  "js_eq a b = (a \<noteq> NaN \<and> b \<noteq> NaN \<and> a = b)"

text \<open>\<open>Math.round\<close>: the nearest integer, a tie going up.\<close>

fun Math_round :: "jsnum \<Rightarrow> jsnum" where
  "Math_round (Fin a) = Fin (of_int \<lfloor>a + 1 / 2\<rfloor>)"
| "Math_round n = n"

text \<open>\<open>Math.pow(10, places)\<close> for an integral \<open>places\<close>.\<close>

definition Math_pow10 :: "int \<Rightarrow> jsnum" where
  "Math_pow10 places =
     (if 0 \<le> places then Fin (10 ^ nat places) else Fin (1 / 10 ^ nat (- places)))"

subsection \<open>Numbers as strings\<close>

definition digit :: "nat \<Rightarrow> char" where
  "digit d = ''0123456789'' ! d"

fun decimal :: "nat \<Rightarrow> string" where
  "decimal n = (if n < 10 then [digit n] else decimal (n div 10) @ [digit (n mod 10)])"

declare decimal.simps [simp del]

text \<open>
  \<open>n + ''\<close> for a number: an integer of magnitude below \<open>10^21\<close> prints as its decimal
  digits. The digits of any other finite number depend on the double it is stored in;
  they are the parameter \<open>fmt\<close>.
\<close>

definition numToString :: "(rat \<Rightarrow> string) \<Rightarrow> jsnum \<Rightarrow> string" where
  "numToString fmt n =
     (case n of
        NaN \<Rightarrow> ''NaN''
      | PosInf \<Rightarrow> ''Infinity''
      | NegInf \<Rightarrow> ''-Infinity''
      | Fin a \<Rightarrow>
          (if a = of_int \<lfloor>a\<rfloor> \<and> \<bar>a\<bar> < 10 ^ 21
           then (if a < 0 then ''-'' @ decimal (nat (- \<lfloor>a\<rfloor>)) else decimal (nat \<lfloor>a\<rfloor>))
           else fmt a))"

definition toString :: "(rat \<Rightarrow> string) \<Rightarrow> jsval \<Rightarrow> string" where
  "toString fmt v = (case v of Undefined \<Rightarrow> ''undefined'' | Num n \<Rightarrow> numToString fmt n)"

section \<open>Operators and expression stacks\<close>

text \<open>
  The constructor \<open>Operator(precedence, associative, doGroup, latex, arity, op)\<close>. The
  evaluation function receives its arguments as the list that \<open>apply\<close> is given.
\<close>

record operator =
  op_precedence :: int
  op_associative :: bool
  op_doGroup :: bool
  op_latex :: string
  op_arity :: nat
  op_op :: "jsval list \<Rightarrow> jsval"

text \<open>
  An expression is an array used as a stack: its last element is the top. A token is a
  value of the pool or an operator; \<open>pop\<close> on the empty array yields \<open>undefined\<close>.
\<close>

datatype token = Val jsval | Op operator

definition pop :: "token list \<Rightarrow> token \<times> token list" where
  "pop e = (if length e = 0 then (Val Undefined, []) else (last e, butlast e))"

text \<open>\<open>expression[expression.length-1]\<close>\<close>

definition top_token :: "token list \<Rightarrow> token" where
  "top_token e = (if length e = 0 then Val Undefined else last e)"

text \<open>A formal parameter of a JavaScript function that got no argument is \<open>undefined\<close>.\<close>

definition arg :: "jsval list \<Rightarrow> nat \<Rightarrow> jsval" where
  "arg args i = (if i < length args then args ! i else Undefined)"

definition binary :: "(jsnum \<Rightarrow> jsnum \<Rightarrow> jsnum) \<Rightarrow> jsval list \<Rightarrow> jsval" where
  "binary f args = Num (f (toNumber (arg args 0)) (toNumber (arg args 1)))"

text \<open>The backslash (code 0x5C), which a string literal of this theory cannot hold.\<close>

definition backslash :: char where
  "backslash = CHR 0x5C"

definition plus_op :: operator where
  "plus_op = \<lparr>op_precedence = 5, op_associative = True, op_doGroup = True,
     op_latex = ''$1 + $2'', op_arity = 2, op_op = binary js_add\<rparr>"

definition minus_op :: operator where
  "minus_op = \<lparr>op_precedence = 5, op_associative = False, op_doGroup = True,
     op_latex = ''$1 - $2'', op_arity = 2, op_op = binary js_sub\<rparr>"

definition times_op :: operator where
  "times_op = \<lparr>op_precedence = 3, op_associative = True, op_doGroup = True,
     op_latex = ''$1 '' @ [backslash] @ ''times $2'', op_arity = 2, op_op = binary js_mul\<rparr>"

definition frac_op :: operator where
  "frac_op = \<lparr>op_precedence = 3, op_associative = False, op_doGroup = False,
     op_latex = [backslash] @ ''frac{$1}{$2}'', op_arity = 2, op_op = binary js_div\<rparr>"

text \<open>The registry the constructor \<open>captcha\<close> fills.\<close>

definition default_operators :: "operator list" where
  "default_operators = [plus_op, minus_op, times_op, frac_op]"

section \<open>\<open>solve\<close>\<close>

text \<open>
  \<open>solve\<close> pops a token; for an operator it calls itself \<open>arity\<close> times, collecting the
  results in call order, and applies the evaluation function to them. The array is
  mutated, so the model returns what is left of it.
\<close>

function solve :: "token list \<Rightarrow> jsval \<times> token list"
  and solve_args :: "nat \<Rightarrow> token list \<Rightarrow> jsval list \<times> token list" where
  "solve e =
     (case pop e of
        (Op ex, e') \<Rightarrow>
          (case solve_args (op_arity ex) e' of (args, e'') \<Rightarrow> (op_op ex args, e''))
      | (Val v, e') \<Rightarrow> (v, e'))"
| "solve_args 0 e = ([], e)"
| "solve_args (Suc n) e =
     (case solve e of (v, e') \<Rightarrow>
        (case solve_args n e' of (vs, e'') \<Rightarrow> (v # vs, e'')))"
  by pat_completeness auto

lemma solve_dom_length:
  "solve_solve_args_dom (Inl e) \<Longrightarrow> length (snd (solve e)) \<le> length e"
  "solve_solve_args_dom (Inr (n, e)) \<Longrightarrow> length (snd (solve_args n e)) \<le> length e"
proof (induction e and n e rule: solve_solve_args.pinduct)
  case (1 e)
  then show ?case
    by (auto simp: solve.psimps pop_def split: prod.splits token.splits if_splits
        intro: le_trans)
next
  case (2 e)
  then show ?case by (simp add: solve_args.psimps)
next
  case (3 n e)
  then show ?case
    by (auto simp: solve_args.psimps split: prod.splits intro: le_trans)
qed

termination solve
proof (relation "measures [\<lambda>x. case x of Inl e \<Rightarrow> length e | Inr (n, e) \<Rightarrow> length e,
                           \<lambda>x. case x of Inl e \<Rightarrow> 0 | Inr (n, e) \<Rightarrow> Suc n]", goal_cases)
  case 1
  show ?case by simp
next
  case (2 e x1 x2 ex)
  then show ?case by (auto simp: pop_def split: if_splits)
next
  case (3 n e)
  show ?case by simp
next
  case (4 n e x y)
  then show ?case using solve_dom_length(1)[of e] by (cases "solve e") auto
qed

declare solve.simps [simp del]

section \<open>\<open>substitute\<close>\<close>

text \<open>
  \<open>s.replace(new RegExp('\\$' + k), r)\<close>: the pattern matches the text \<open>$k\<close> and has
  neither flags nor groups, so the leftmost match alone is replaced. The replacement is
  a string, in which \<open>$$\<close> stands for a dollar sign, \<open>$&\<close> for the match, \<open>$`\<close> for the
  text before the match and \<open>$'\<close> for the text after it; with no group in the pattern,
  a dollar sign before anything else stands for itself.
\<close>

fun split_first :: "string \<Rightarrow> string \<Rightarrow> (string \<times> string) option" where
  "split_first p [] = (if p = [] then Some ([], []) else None)"
| "split_first p (c # cs) =
     (if prefix p (c # cs) then Some ([], drop (length p) (c # cs))
      else (case split_first p cs of
              None \<Rightarrow> None
            | Some (pre, post) \<Rightarrow> Some (c # pre, post)))"

fun expand :: "string \<Rightarrow> string \<Rightarrow> string \<Rightarrow> string \<Rightarrow> string" where
  "expand m pre post [] = []"
| "expand m pre post [c] = [c]"
| "expand m pre post (c # d # r) =
     (if c = CHR ''$'' then
        (if d = CHR ''$'' then CHR ''$'' # expand m pre post r
         else if d = CHR ''&'' then m @ expand m pre post r
         else if d = CHR 0x60 then pre @ expand m pre post r
         else if d = CHR 0x27 then post @ expand m pre post r
         else c # expand m pre post (d # r))
      else c # expand m pre post (d # r))"

definition replace :: "string \<Rightarrow> string \<Rightarrow> string \<Rightarrow> string" where
  "replace p r s =
     (case split_first p s of
        None \<Rightarrow> s
      | Some (pre, post) \<Rightarrow> pre @ expand p pre post r @ post)"

text \<open>The loop of \<open>substitute\<close>, from index \<open>i\<close> on, over the operands not yet placed.\<close>

fun substitute_loop :: "nat \<Rightarrow> string \<Rightarrow> string list \<Rightarrow> string" where
  "substitute_loop i latex [] = latex"
| "substitute_loop i latex (s # subs) =
     substitute_loop (Suc i) (replace (''$'' @ decimal (Suc i)) s latex) subs"

definition substitute :: "string \<Rightarrow> string list \<Rightarrow> string" where
  "substitute latex subs = substitute_loop 0 latex subs"

section \<open>\<open>latex\<close>\<close>

fun precedence :: "token \<Rightarrow> int" where
  "precedence (Op ex) = op_precedence ex"
| "precedence (Val v) = 0"

text \<open>
  The test of \<open>latex\<close> that decides whether operand \<open>i\<close> of \<open>ex\<close> is put in
  parentheses; \<open>tp\<close> is the precedence of the token on top of the stack before the
  operand is rendered.
\<close>

definition grouped :: "operator \<Rightarrow> nat \<Rightarrow> int \<Rightarrow> bool" where
  "grouped ex i tp =
     (op_doGroup ex \<and> 0 < i \<and> tp \<noteq> 0 \<and> (op_precedence ex < tp \<or> \<not> op_associative ex))"

function latex :: "(rat \<Rightarrow> string) \<Rightarrow> token list \<Rightarrow> string \<times> token list"
  and latex_args ::
    "(rat \<Rightarrow> string) \<Rightarrow> operator \<Rightarrow> nat \<Rightarrow> token list \<Rightarrow> string list \<times> token list" where
  "latex fmt e =
     (case pop e of
        (Op ex, e') \<Rightarrow>
          (case latex_args fmt ex 0 e' of (args, e'') \<Rightarrow> (substitute (op_latex ex) args, e''))
      | (Val v, e') \<Rightarrow> (toString fmt v, e'))"
| "latex_args fmt ex i e =
     (if i < op_arity ex then
        (case latex fmt e of (s, e') \<Rightarrow>
           (case latex_args fmt ex (Suc i) e' of (args, e'') \<Rightarrow>
              ((if grouped ex i (precedence (top_token e)) then ''('' @ s @ '')'' else s) # args,
               e'')))
      else ([], e))"
  by pat_completeness auto

lemma latex_dom_length:
  "latex_latex_args_dom (Inl (fmt, e)) \<Longrightarrow> length (snd (latex fmt e)) \<le> length e"
  "latex_latex_args_dom (Inr (fmt, ex, i, e)) \<Longrightarrow>
     length (snd (latex_args fmt ex i e)) \<le> length e"
proof (induction fmt e and fmt ex i e rule: latex_latex_args.pinduct)
  case (1 fmt e)
  then show ?case
    by (auto simp: latex.psimps pop_def split: prod.splits token.splits if_splits
        intro: le_trans)
next
  case (2 fmt ex i e)
  then show ?case
    by (auto simp: latex_args.psimps Let_def split: prod.splits intro: le_trans)
qed

termination latex
proof (relation "measures
    [\<lambda>x. case x of Inl (fmt, e) \<Rightarrow> length e | Inr (fmt, ex, i, e) \<Rightarrow> length e,
     \<lambda>x. case x of Inl (fmt, e) \<Rightarrow> 0 | Inr (fmt, ex, i, e) \<Rightarrow> Suc (op_arity ex - i)]",
    goal_cases)
  case 1
  show ?case by simp
next
  case (2 fmt e x1 x2 ex)
  then show ?case by (auto simp: pop_def split: if_splits)
next
  case (3 fmt ex i e)
  show ?case by simp
next
  case (4 fmt ex i e x y)
  then show ?case using latex_dom_length(1)[of fmt e] by (cases "latex fmt e") auto
qed

declare latex.simps [simp del] latex_args.simps [simp del]

section \<open>\<open>generateExpression\<close>\<close>

text \<open>
  \<open>Math.random()\<close> is a sequence \<open>rnd\<close> of numbers, of which the program has drawn the
  first \<open>k\<close>; each draw lies in \<open>[0, 1)\<close>.
\<close>

definition random_source :: "(nat \<Rightarrow> rat) \<Rightarrow> bool" where
  "random_source rnd = (\<forall>k. 0 \<le> rnd k \<and> rnd k < 1)"

definition randInt :: "int \<Rightarrow> int \<Rightarrow> rat \<Rightarrow> int" where
  "randInt n m r = n + \<lfloor>r * of_int (m - n + 1)\<rfloor>"

text \<open>\<open>xs[i]\<close>: \<open>undefined\<close> (here \<open>None\<close>) outside the array.\<close>

definition element :: "'a list \<Rightarrow> int \<Rightarrow> 'a option" where
  "element xs i = (if 0 \<le> i \<and> i < int (length xs) then Some (xs ! nat i) else None)"

definition value_at :: "jsval list \<Rightarrow> int \<Rightarrow> jsval" where
  "value_at vs i = (case element vs i of None \<Rightarrow> Undefined | Some v \<Rightarrow> v)"

text \<open>Reading \<open>op.arity\<close> when \<open>op\<close> is \<open>undefined\<close> throws.\<close>

datatype error = TypeError

text \<open>The \<open>while\<close> loop: values are pushed until \<open>valCount\<close> reaches the arity.\<close>

function push_values ::
  "(nat \<Rightarrow> rat) \<Rightarrow> jsval list \<Rightarrow> operator \<Rightarrow> token list \<times> int \<times> nat \<Rightarrow> token list \<times> int \<times> nat"
  where
  "push_values rnd vs ex (rtn, valCount, k) =
     (if valCount < int (op_arity ex)
      then push_values rnd vs ex
             (rtn @ [Val (value_at vs (randInt 0 (int (length vs) - 1) (rnd k)))],
              valCount + 1, Suc k)
      else (rtn, valCount, k))"
  by pat_completeness auto
termination
  by (relation "measure (\<lambda>(rnd, vs, ex, rtn, valCount, k). nat (int (op_arity ex) - valCount))")
    auto

declare push_values.simps [simp del]

text \<open>The \<open>for\<close> loop, from its counter \<open>i\<close> on.\<close>

function generate_loop ::
  "(nat \<Rightarrow> rat) \<Rightarrow> operator list \<Rightarrow> jsval list \<Rightarrow> int \<Rightarrow> int \<Rightarrow> token list \<times> int \<times> nat
     \<Rightarrow> error + token list \<times> int \<times> nat" where
  "generate_loop rnd ops vs i n (rtn, valCount, k) =
     (if i < n then
        (case element ops (randInt 0 (int (length ops) - 1) (rnd k)) of
           None \<Rightarrow> Inl TypeError
         | Some ex \<Rightarrow>
             (case push_values rnd vs ex (rtn, valCount, Suc k) of
                (rtn', valCount', k') \<Rightarrow>
                  generate_loop rnd ops vs (i + 1) n (rtn' @ [Op ex], valCount' - 1, k')))
      else Inr (rtn, valCount, k))"
  by pat_completeness auto
termination
  by (relation "measure (\<lambda>(rnd, ops, vs, i, n, st). nat (n - i))") auto

declare generate_loop.simps [simp del]

text \<open>
  \<open>generateExpression(minOps, maxOps, values)\<close> of a manager whose registry is \<open>ops\<close>.
  The result is the stack and the number of draws made so far.
\<close>

definition generateExpression ::
  "(nat \<Rightarrow> rat) \<Rightarrow> nat \<Rightarrow> operator list \<Rightarrow> int \<Rightarrow> int \<Rightarrow> jsval list
     \<Rightarrow> error + token list \<times> nat" where
  "generateExpression rnd k ops minOps maxOps vs =
     (case generate_loop rnd ops vs 0 (randInt minOps maxOps (rnd k)) ([], 0, Suc k) of
        Inl err \<Rightarrow> Inl err
      | Inr (rtn, valCount, k') \<Rightarrow> Inr (rtn, k'))"

section \<open>The manager\<close>

record options =
  path :: string
  minOps :: int
  maxOps :: int
  values_pool :: "jsval list"
  cleanupTime :: int

text \<open>
  The object stored under a key. \<open>handler\<close> is the identifier \<open>setTimeout\<close> returned; the
  property does not exist before the timer is armed.
\<close>

record captcha_record =
  rec_exp :: "token list"
  rec_latex :: string
  rec_answer :: jsval
  rec_file :: string
  rec_handler :: "nat option"

text \<open>
  \<open>captchas\<close> is created as the object literal \<open>{}\<close>. The model holds its own properties:
  \<open>Some None\<close> is a property whose value is \<open>undefined\<close>, which is what
  \<open>this.captchas[key] = undefined\<close> leaves behind. \<open>timers\<close> are the armed timeouts with
  the key each will clean up and its delay in milliseconds; \<open>commands\<close> are the command
  lines \<open>cleanup\<close> has handed to \<open>exec\<close>.
\<close>

record manager =
  options :: options
  operators :: "operator list"
  captchas :: "string \<rightharpoonup> captcha_record option"
  timers :: "nat \<rightharpoonup> string \<times> int"
  next_timer :: nat
  commands :: "string list"

text \<open>
  A read \<open>this.captchas[key]\<close> of a name the object does not own goes on to
  \<open>Object.prototype\<close>, whose members are functions, and the object \<open>Object.prototype\<close>
  itself under \<open>__proto__\<close>: all of them pass an \<open>if\<close>, none has a property \<open>file\<close>,
  \<open>answer\<close> or \<open>handler\<close>.
\<close>

definition Object_prototype_names :: "string list" where
  "Object_prototype_names =
     [''constructor'', ''hasOwnProperty'', ''isPrototypeOf'', ''propertyIsEnumerable'',
      ''toLocaleString'', ''toString'', ''valueOf'', ''__proto__'',
      ''__defineGetter__'', ''__defineSetter__'', ''__lookupGetter__'', ''__lookupSetter__'']"

datatype slot = Record captcha_record | Inherited | Undef

definition lookup :: "(string \<rightharpoonup> captcha_record option) \<Rightarrow> string \<Rightarrow> slot" where
  "lookup c key =
     (case c key of
        Some (Some r) \<Rightarrow> Record r
      | Some None \<Rightarrow> Undef
      | None \<Rightarrow> (if key \<in> set Object_prototype_names then Inherited else Undef))"

text \<open>
  \<open>this.captchas[key] = undefined\<close>. Under the name \<open>__proto__\<close> the assignment reaches the
  setter of \<open>Object.prototype\<close>, which ignores a value that is neither an object nor
  \<open>null\<close>.
\<close>

definition set_undefined ::
  "(string \<rightharpoonup> captcha_record option) \<Rightarrow> string \<Rightarrow> (string \<rightharpoonup> captcha_record option)" where
  "set_undefined c key = (if key = ''__proto__'' then c else c(key \<mapsto> None))"

text \<open>What \<open>getImage\<close> returns: a path, \<open>null\<close>, or \<open>undefined\<close> for a missing \<open>file\<close>.\<close>

datatype image = Path string | Null | No_file

definition getImage :: "manager \<Rightarrow> string \<Rightarrow> image" where
  "getImage s key =
     (case lookup (captchas s) key of
        Record r \<Rightarrow> Path (rec_file r)
      | Inherited \<Rightarrow> No_file
      | Undef \<Rightarrow> Null)"

fun slot_answer :: "slot \<Rightarrow> jsval" where
  "slot_answer (Record r) = rec_answer r"
| "slot_answer _ = Undefined"

fun slot_handler :: "slot \<Rightarrow> nat option" where
  "slot_handler (Record r) = rec_handler r"
| "slot_handler _ = None"

definition check :: "manager \<Rightarrow> string \<Rightarrow> jsnum \<Rightarrow> int \<Rightarrow> bool" where
  "check s key answer places =
     (case lookup (captchas s) key of
        Undef \<Rightarrow> False
      | found \<Rightarrow>
          (let shift = Math_pow10 places;
               rounded = Math_round (js_mul (toNumber (slot_answer found)) shift);
               adjusted = Math_round (js_mul answer shift)
           in js_eq adjusted rounded))"

text \<open>\<open>clearTimeout\<close>; a handler that is \<open>undefined\<close> clears nothing.\<close>

definition clearTimeout :: "nat option \<Rightarrow> (nat \<rightharpoonup> string \<times> int) \<Rightarrow> (nat \<rightharpoonup> string \<times> int)" where
  "clearTimeout h ts = (case h of None \<Rightarrow> ts | Some t \<Rightarrow> ts(t := None))"

fun join :: "string list \<Rightarrow> string" where
  "join [] = []"
| "join [x] = x"
| "join (x # y # r) = x @ '','' @ join (y # r)"

text \<open>The command line of \<open>cleanup\<close>: \<open>'rm '\<close> followed by an array, which is joined by commas.\<close>

definition rm_command :: "string \<Rightarrow> string \<Rightarrow> string" where
  "rm_command dir key =
     ''rm '' @ join (map (\<lambda>v. dir @ ''/'' @ key @ v) [''.tex'', ''.aux'', ''.dvi'', ''.png'', ''.log''])"

definition cleanup :: "manager \<Rightarrow> string \<Rightarrow> manager" where
  "cleanup s key =
     (case lookup (captchas s) key of
        Undef \<Rightarrow> s
      | found \<Rightarrow>
          s\<lparr>timers := clearTimeout (slot_handler found) (timers s),
            captchas := set_undefined (captchas s) key,
            commands := commands s @ [rm_command (path (options s)) key]\<rparr>)"

section \<open>\<open>generate\<close>\<close>

definition newline :: char where
  "newline = CHR 0x0A"

definition wrapLatex :: "string \<Rightarrow> string" where
  "wrapLatex math =
     [backslash] @ ''documentclass[12pt]{article}'' @ [newline] @
     [backslash] @ ''usepackage{amsmath}'' @ [newline] @
     [backslash] @ ''pagestyle{empty}'' @ [newline, newline] @
     [backslash] @ ''begin{document}'' @ [newline, newline] @
     [backslash] @ ''begin{displaymath}'' @ [newline] @ math @ [newline] @
     [backslash] @ ''end{displaymath}'' @ [newline, newline] @
     [backslash] @ ''end{document}''"

text \<open>
  The key is the MD5 digest of the document, written as hexadecimal digits. The hash
  function is the parameter \<open>md5\<close>, from a text to the bytes of its digest.
\<close>

definition hex_digit :: "nat \<Rightarrow> char" where
  "hex_digit d = ''0123456789abcdef'' ! (d mod 16)"

definition hex_digest :: "nat list \<Rightarrow> string" where
  "hex_digest bytes = concat (map (\<lambda>b. [hex_digit (b div 16), hex_digit b]) bytes)"

text \<open>
  The part of \<open>generate\<close> that runs before it returns: the expression is drawn, rendered
  and solved, each on a copy of its own, and the record is stored under the key. The
  result is the key, the number of draws made, and the new state.
\<close>

definition generate_start ::
  "(string \<Rightarrow> nat list) \<Rightarrow> (rat \<Rightarrow> string) \<Rightarrow> (nat \<Rightarrow> rat) \<Rightarrow> nat \<Rightarrow> manager
     \<Rightarrow> error + string \<times> nat \<times> manager" where
  "generate_start md5 fmt rnd k s =
     (case generateExpression rnd k (operators s) (minOps (options s)) (maxOps (options s))
             (values_pool (options s)) of
        Inl err \<Rightarrow> Inl err
      | Inr (e, k') \<Rightarrow>
          (let doc = wrapLatex (fst (latex fmt e));
               answer = fst (solve e);
               key = hex_digest (md5 doc);
               file = path (options s) @ ''/'' @ key
           in Inr (key, k',
                s\<lparr>captchas := (captchas s)(key \<mapsto>
                     Some \<lparr>rec_exp = e, rec_latex = doc, rec_answer = answer,
                           rec_file = file @ ''.png'', rec_handler = None\<rparr>)\<rparr>)))"

text \<open>
  The three stages run one after the other in callbacks. Each ends with an error or
  without one: \<open>write_err\<close> for \<open>fs.writeFile\<close>, \<open>tex_err\<close> for the typesetter and
  \<open>dvipng_err\<close> for the rasterizer. What becomes of the record and which callback of the caller is
  invoked is \<open>generate_finish\<close>; operations of other requests that run between the
  stages are not part of it.
\<close>

record stages =
  write_err :: "string option"
  tex_err :: "string option"
  dvipng_err :: "string option"

datatype report = Success string | Failure string

definition arm_timer :: "manager \<Rightarrow> string \<Rightarrow> manager" where
  "arm_timer s key =
     s\<lparr>timers := (timers s)(next_timer s \<mapsto> (key, cleanupTime (options s) * 1000)),
       next_timer := Suc (next_timer s)\<rparr>"

definition generate_finish :: "manager \<Rightarrow> string \<Rightarrow> stages \<Rightarrow> error + manager \<times> report" where
  "generate_finish s key st =
     (case write_err st of
        Some err \<Rightarrow> Inr (s\<lparr>captchas := set_undefined (captchas s) key\<rparr>, Failure err)
      | None \<Rightarrow>
     (case tex_err st of
        Some err \<Rightarrow> Inr (s\<lparr>captchas := set_undefined (captchas s) key\<rparr>, Failure err)
      | None \<Rightarrow>
     (case dvipng_err st of
        Some err \<Rightarrow> Inr (s\<lparr>captchas := set_undefined (captchas s) key\<rparr>, Failure err)
      | None \<Rightarrow>
     (case lookup (captchas s) key of
        Undef \<Rightarrow> Inl TypeError
      | Inherited \<Rightarrow> Inr (arm_timer s key, Success key)
      | Record r \<Rightarrow>
          Inr ((arm_timer s key)\<lparr>captchas :=
                  (captchas s)(key \<mapsto> Some (r\<lparr>rec_handler := Some (next_timer s)\<rparr>))\<rparr>,
               Success key)))))"

definition generate ::
  "(string \<Rightarrow> nat list) \<Rightarrow> (rat \<Rightarrow> string) \<Rightarrow> (nat \<Rightarrow> rat) \<Rightarrow> nat \<Rightarrow> stages \<Rightarrow> manager
     \<Rightarrow> error + manager \<times> report" where
  "generate md5 fmt rnd k st s =
     (case generate_start md5 fmt rnd k s of
        Inl err \<Rightarrow> Inl err
      | Inr (key, k', s') \<Rightarrow> generate_finish s' key st)"

section \<open>Managers, stacks and trees used in the statements\<close>

definition default_options :: options where
  "default_options =
     \<lparr>path = ''/tmp/math-captcha'', minOps = 3, maxOps = 5,
      values_pool = map (\<lambda>i. Num (Fin (of_int i))) [1, 2, 3, 4, 5, 6, 7, 8, 9],
      cleanupTime = 600\<rparr>"

text \<open>The constructor \<open>captcha\<close>, given the options already merged with the defaults.\<close>

definition captcha :: "options \<Rightarrow> manager" where
  "captcha opts =
     \<lparr>options = opts, operators = default_operators, captchas = Map.empty,
      timers = Map.empty, next_timer = 0, commands = []\<rparr>"

text \<open>A literal token.\<close>

definition lit :: "int \<Rightarrow> token" where
  "lit i = Val (Num (Fin (of_int i)))"

text \<open>
  The tree a stack stands for. The operands of a node are listed in the order in which
  they are popped, so the first operand lies nearest the end of the stack.
\<close>

datatype tree = Leaf jsval | Node operator "tree list"

fun stack_of :: "tree \<Rightarrow> token list" where
  "stack_of (Leaf v) = [Val v]"
| "stack_of (Node ex ts) = concat (map stack_of (rev ts)) @ [Op ex]"

fun arity_ok :: "tree \<Rightarrow> bool" where
  "arity_ok (Leaf v) = True"
| "arity_ok (Node ex ts) = (length ts = op_arity ex \<and> list_all arity_ok ts)"

fun value_of :: "tree \<Rightarrow> jsval" where
  "value_of (Leaf v) = v"
| "value_of (Node ex ts) = op_op ex (map value_of ts)"

fun head_precedence :: "tree \<Rightarrow> int" where
  "head_precedence (Leaf v) = 0"
| "head_precedence (Node ex ts) = op_precedence ex"

text \<open>
  Consuming a stack from its end: \<open>n\<close> operand slots are waiting to be filled, a value
  fills one, an operator fills one and opens as many as its arity. The stack is
  well-formed when one slot is filled by exactly all of it: a token is never met with
  no slot waiting, and no slot is left when the tokens run out.
\<close>

fun token_arity :: "token \<Rightarrow> nat" where
  "token_arity (Val v) = 0"
| "token_arity (Op ex) = op_arity ex"

fun consume :: "nat \<Rightarrow> token list \<Rightarrow> nat option" where
  "consume n [] = Some n"
| "consume n (t # ts) = (if n = 0 then None else consume (n - 1 + token_arity t) ts)"

definition well_formed :: "token list \<Rightarrow> bool" where
  "well_formed e = (consume 1 (rev e) = Some 0)"

text \<open>
  A manager that can only draw \<open>2 + 2\<close>, a hash function that sends every text to the
  byte \<open>0xab\<close>, and the state in which \<open>generate\<close> leaves that manager when it returns,
  before any stage has run.
\<close>

definition example_options :: options where
  "example_options =
     \<lparr>path = ''/tmp/math-captcha'', minOps = 1, maxOps = 1,
      values_pool = [Num (Fin 2)], cleanupTime = 600\<rparr>"

text \<open>A random source whose every draw is \<open>0\<close>.\<close>

definition zero_draws :: "nat \<Rightarrow> rat" where
  "zero_draws k = 0"

text \<open>A stand-in for the digits of the numbers that \<open>numToString\<close> leaves to its parameter.\<close>

definition no_digits :: "rat \<Rightarrow> string" where
  "no_digits a = ''?''"

definition example_md5 :: "string \<Rightarrow> nat list" where
  "example_md5 doc = [171]"

definition example_record :: captcha_record where
  "example_record =
     \<lparr>rec_exp = [lit 2, lit 2, Op plus_op], rec_latex = wrapLatex ''2 + 2'',
      rec_answer = Num (Fin 4), rec_file = ''/tmp/math-captcha/ab.png'', rec_handler = None\<rparr>"

definition example_pending :: manager where
  "example_pending = (captcha example_options)\<lparr>captchas := [''ab'' \<mapsto> Some example_record]\<rparr>"

text \<open>A key that the three operations treat as one they do not know.\<close>

definition behaves_unknown :: "manager \<Rightarrow> string \<Rightarrow> jsnum \<Rightarrow> int \<Rightarrow> bool" where
  "behaves_unknown s key answer places =
     (getImage s key = Null \<and> \<not> check s key answer places \<and> cleanup s key = s)"

text \<open>Two runs of the pipeline: the typesetter fails, and nothing fails.\<close>

definition typesetter_fails :: stages where
  "typesetter_fails = \<lparr>write_err = None, tex_err = Some ''exit 1'', dvipng_err = None\<rparr>"

definition all_succeed :: stages where
  "all_succeed = \<lparr>write_err = None, tex_err = None, dvipng_err = None\<rparr>"

text \<open>
  The text of a tree: a value is printed, a node has its operands rendered first to
  last, operand \<open>i\<close> in parentheses when \<open>latex\<close> would put them, and placed in the
  template.
\<close>

fun render :: "(rat \<Rightarrow> string) \<Rightarrow> tree \<Rightarrow> string"
  and render_operands :: "(rat \<Rightarrow> string) \<Rightarrow> operator \<Rightarrow> nat \<Rightarrow> tree list \<Rightarrow> string list" where
  "render fmt (Leaf v) = toString fmt v"
| "render fmt (Node ex ts) = substitute (op_latex ex) (render_operands fmt ex 0 ts)"
| "render_operands fmt ex i [] = []"
| "render_operands fmt ex i (t # ts) =
     (if grouped ex i (head_precedence t) then ''('' @ render fmt t @ '')'' else render fmt t)
       # render_operands fmt ex (Suc i) ts"

text \<open>An operator of three operands, their sum, as a user of the library may register it.\<close>

definition sum3_op :: operator where
  "sum3_op =
     \<lparr>op_precedence = 5, op_associative = True, op_doGroup = True,
      op_latex = ''$1 + $2 + $3'', op_arity = 3,
      op_op = (\<lambda>args. Num (js_add (js_add (toNumber (arg args 0)) (toNumber (arg args 1)))
                                 (toNumber (arg args 2))))\<rparr>"

text \<open>
  The state of \<open>generateExpression\<close> between two operators when every operator is
  binary: nothing has been pushed, or the array is the stack of a tree of the kind \<open>P\<close>
  and one value is counted.
\<close>

definition between_operators :: "(tree \<Rightarrow> bool) \<Rightarrow> token list \<times> int \<times> nat \<Rightarrow> bool" where
  "between_operators P st =
     (case st of (rtn, valCount, k) \<Rightarrow>
        rtn = [] \<and> valCount = 0 \<or> (\<exists>t. P t \<and> rtn = stack_of t) \<and> valCount = 1)"

text \<open>
  A template seen as pieces: text between placeholders, and placeholders \<open>$i\<close>.
  \<open>place i x\<close> puts the operand \<open>x\<close> where the first placeholder \<open>$i\<close> stands and leaves
  every later one; \<open>place_all i subs\<close> does so for the operands \<open>subs\<close> in turn, the first
  of them for \<open>$i\<close>. A template is \<open>clean\<close> when its text has no dollar sign and its
  placeholders are \<open>$1\<close> to \<open>$9\<close>.
\<close>

datatype piece = Text string | Hole nat

fun piece_text :: "piece \<Rightarrow> string" where
  "piece_text (Text s) = s"
| "piece_text (Hole i) = ''$'' @ decimal i"

definition template_text :: "piece list \<Rightarrow> string" where
  "template_text ps = concat (map piece_text ps)"

fun place :: "nat \<Rightarrow> string \<Rightarrow> piece list \<Rightarrow> piece list" where
  "place i x [] = []"
| "place i x (Text s # ps) = Text s # place i x ps"
| "place i x (Hole j # ps) = (if j = i then Text x # ps else Hole j # place i x ps)"

fun place_all :: "nat \<Rightarrow> string list \<Rightarrow> piece list \<Rightarrow> piece list" where
  "place_all i [] ps = ps"
| "place_all i (x # subs) ps = place_all (Suc i) subs (place i x ps)"

fun clean_piece :: "piece \<Rightarrow> bool" where
  "clean_piece (Text s) = (CHR ''$'' \<notin> set s)"
| "clean_piece (Hole j) = (1 \<le> j \<and> j \<le> 9)"

definition clean :: "piece list \<Rightarrow> bool" where
  "clean ps = list_all clean_piece ps"

text \<open>
  Filling every placeholder at once: \<open>$j\<close> becomes operand \<open>j\<close>, counted from \<open>i\<close>, when there
  is one.
\<close>

fun fill :: "nat \<Rightarrow> string list \<Rightarrow> piece \<Rightarrow> piece" where
  "fill i subs (Text s) = Text s"
| "fill i subs (Hole j) = (if i \<le> j \<and> j < i + length subs then Text (subs ! (j - i)) else Hole j)"

text \<open>
  Reading the text that \<open>latex\<close> produces as arithmetic, with the usual precedence: a
  sum is a row of products joined by \<open>+\<close> and \<open>-\<close>, a product a row of atoms joined by
  the multiplication sign, both taken from left to right; an atom is a row of digits, a
  sum in parentheses, or a fraction, the quotient of two sums in braces. Each function
  returns the value it has read and the text left over.
\<close>

definition is_digit :: "char \<Rightarrow> bool" where
  "is_digit c = (c \<in> set ''0123456789'')"

definition digit_value :: "char \<Rightarrow> nat" where
  "digit_value c = length (takeWhile (\<lambda>d. d \<noteq> c) ''0123456789'')"

definition digits_value :: "string \<Rightarrow> nat" where
  "digits_value ds = foldl (\<lambda>a c. 10 * a + digit_value c) 0 ds"

definition plus_sign :: string where "plus_sign = '' + ''"

definition minus_sign :: string where "minus_sign = '' - ''"

definition times_sign :: string where "times_sign = '' '' @ [backslash] @ ''times ''"

definition frac_open :: string where "frac_open = [backslash] @ ''frac{''"

definition frac_middle :: string where "frac_middle = ''}{''"

function parse_sum :: "string \<Rightarrow> (jsnum \<times> string) option"
  and sum_loop :: "jsnum \<Rightarrow> string \<Rightarrow> (jsnum \<times> string) option"
  and parse_product :: "string \<Rightarrow> (jsnum \<times> string) option"
  and product_loop :: "jsnum \<Rightarrow> string \<Rightarrow> (jsnum \<times> string) option"
  and parse_atom :: "string \<Rightarrow> (jsnum \<times> string) option" where
  "parse_sum s =
     (case parse_product s of None \<Rightarrow> None | Some (a, r) \<Rightarrow> sum_loop a r)"
| "sum_loop a s =
     (if prefix plus_sign s then
        (case parse_product (drop 3 s) of
           None \<Rightarrow> None
         | Some (b, r) \<Rightarrow> sum_loop (js_add a b) r)
      else if prefix minus_sign s then
        (case parse_product (drop 3 s) of
           None \<Rightarrow> None
         | Some (b, r) \<Rightarrow> sum_loop (js_sub a b) r)
      else Some (a, s))"
| "parse_product s =
     (case parse_atom s of None \<Rightarrow> None | Some (a, r) \<Rightarrow> product_loop a r)"
| "product_loop a s =
     (if prefix times_sign s then
        (case parse_atom (drop 8 s) of
           None \<Rightarrow> None
         | Some (b, r) \<Rightarrow> product_loop (js_mul a b) r)
      else Some (a, s))"
| "parse_atom s =
     (if takeWhile is_digit s \<noteq> [] then
        Some (Fin (of_nat (digits_value (takeWhile is_digit s))), dropWhile is_digit s)
      else if prefix ''('' s then
        (case parse_sum (drop 1 s) of
           None \<Rightarrow> None
         | Some (a, r) \<Rightarrow> (if prefix '')'' r then Some (a, drop 1 r) else None))
      else if prefix frac_open s then
        (case parse_sum (drop 6 s) of
           None \<Rightarrow> None
         | Some (a, r) \<Rightarrow>
             (if prefix frac_middle r then
                (case parse_sum (drop 2 r) of
                   None \<Rightarrow> None
                 | Some (b, r') \<Rightarrow> (if prefix ''}'' r' then Some (js_div a b, drop 1 r') else None))
              else None))
      else None)"
  by pat_completeness auto

lemma parser_dom_length:
  "parse_sum_sum_loop_parse_product_product_loop_parse_atom_dom (Inl (Inl s)) \<Longrightarrow>
     parse_sum s = Some (v, r) \<Longrightarrow> length r \<le> length s"
  "parse_sum_sum_loop_parse_product_product_loop_parse_atom_dom (Inl (Inr (a, s))) \<Longrightarrow>
     sum_loop a s = Some (v, r) \<Longrightarrow> length r \<le> length s"
  "parse_sum_sum_loop_parse_product_product_loop_parse_atom_dom (Inr (Inl s)) \<Longrightarrow>
     parse_product s = Some (v, r) \<Longrightarrow> length r \<le> length s"
  "parse_sum_sum_loop_parse_product_product_loop_parse_atom_dom (Inr (Inr (Inl (a, s)))) \<Longrightarrow>
     product_loop a s = Some (v, r) \<Longrightarrow> length r \<le> length s"
  "parse_sum_sum_loop_parse_product_product_loop_parse_atom_dom (Inr (Inr (Inr s))) \<Longrightarrow>
     parse_atom s = Some (v, r) \<Longrightarrow> length r \<le> length s"
proof (induction s and a s and s and a s and s arbitrary: v r and v r and v r and v r and v r
    rule: parse_sum_sum_loop_parse_product_product_loop_parse_atom.pinduct)
  case (1 s)
  then show ?case
    by (auto simp: parse_sum.psimps split: option.splits) (meson le_trans)
next
  case (2 a s)
  then show ?case
    by (auto simp: sum_loop.psimps split: option.splits if_splits)
      (meson le_trans length_drop diff_le_self)+
next
  case (3 s)
  then show ?case
    by (auto simp: parse_product.psimps split: option.splits) (meson le_trans)
next
  case (4 a s)
  then show ?case
    by (auto simp: product_loop.psimps split: option.splits if_splits)
      (meson le_trans length_drop diff_le_self)+
next
  case (5 s)
  then show ?case
    by (auto simp: parse_atom.psimps length_dropWhile_le split: option.splits if_splits)
      (meson le_trans length_drop diff_le_self)+
qed

termination parse_sum
proof (relation "measures
    [\<lambda>x. case x of Inl (Inl s) \<Rightarrow> length s | Inl (Inr (a, s)) \<Rightarrow> length s
        | Inr (Inl s) \<Rightarrow> length s | Inr (Inr (Inl (a, s))) \<Rightarrow> length s
        | Inr (Inr (Inr s)) \<Rightarrow> length s,
     \<lambda>x. case x of Inl (Inl s) \<Rightarrow> 4 | Inl (Inr (a, s)) \<Rightarrow> 3
        | Inr (Inl s) \<Rightarrow> 2 | Inr (Inr (Inl (a, s))) \<Rightarrow> Suc 0
        | Inr (Inr (Inr s)) \<Rightarrow> 0]", goal_cases)
  case 1
  show ?case by simp
next
  case (2 s)
  show ?case by simp
next
  case (3 s x a r)
  then show ?case using parser_dom_length(3) [of s a r] by auto
next
  case (4 a s)
  then show ?case by (auto simp: plus_sign_def dest: prefix_length_le)
next
  case (5 a s x b r)
  then show ?case using parser_dom_length(3) [of "drop 3 s" b r]
    by (auto simp: plus_sign_def dest: prefix_length_le)
next
  case (6 a s)
  then show ?case by (auto simp: minus_sign_def dest: prefix_length_le)
next
  case (7 a s x b r)
  then show ?case using parser_dom_length(3) [of "drop 3 s" b r]
    by (auto simp: minus_sign_def dest: prefix_length_le)
next
  case (8 s)
  show ?case by simp
next
  case (9 s x a r)
  then show ?case using parser_dom_length(5) [of s a r] by auto
next
  case (10 a s)
  then show ?case by (auto simp: times_sign_def dest: prefix_length_le)
next
  case (11 a s x b r)
  then show ?case using parser_dom_length(5) [of "drop 8 s" b r]
    by (auto simp: times_sign_def dest: prefix_length_le)
next
  case (12 s)
  then show ?case by (auto dest: prefix_length_le)
next
  case (13 s)
  then show ?case by (auto simp: frac_open_def dest: prefix_length_le)
next
  case (14 s x a r)
  then show ?case using parser_dom_length(1) [of "drop 6 s" a r]
    by (auto simp: frac_open_def frac_middle_def dest: prefix_length_le)
qed

declare parse_sum.simps [simp del] sum_loop.simps [simp del] parse_product.simps [simp del]
  product_loop.simps [simp del] parse_atom.simps [simp del]


text \<open>Text that no sum can go on with: nothing, or a closing parenthesis or brace.\<close>

definition stops :: "string \<Rightarrow> bool" where
  "stops rest = (case rest of [] \<Rightarrow> True | c # cs \<Rightarrow> c = CHR '')'' \<or> c = CHR ''}'')"



text \<open>The number a tree evaluates to, and the text of the second operand of a node.\<close>

definition num :: "tree \<Rightarrow> jsnum" where
  "num t = toNumber (value_of t)"






section \<open>Properties\<close>

subsection \<open>Arithmetic and lookups\<close>

lemma floor_rat_numeral [simp]:
  "\<lfloor>numeral a / numeral b :: rat\<rfloor> = numeral a div numeral b"
  by (metis floor_divide_of_int_eq of_int_numeral)

lemma js_eq_NaN [simp]: "\<not> js_eq a NaN" "\<not> js_eq NaN a"
  by (simp_all add: js_eq_def)

lemma js_mul_NaN [simp]: "js_mul NaN a = NaN"
  by (cases a) simp_all

lemma lookup_own [simp]:
  "captchas s key = Some (Some r) \<Longrightarrow> lookup (captchas s) key = Record r"
  "captchas s key = Some None \<Longrightarrow> lookup (captchas s) key = Undef"
  by (simp_all add: lookup_def)

lemma lookup_set_undefined:
  "key \<noteq> ''__proto__'' \<Longrightarrow> lookup (set_undefined c key) key = Undef"
  by (simp add: lookup_def set_undefined_def)

lemma undef_behaves_unknown:
  "lookup (captchas s) key = Undef \<Longrightarrow> behaves_unknown s key answer places"
  by (simp add: behaves_unknown_def getImage_def check_def cleanup_def)

subsection \<open>The key is a string of hexadecimal digits\<close>

lemma hex_digit_in: "hex_digit d \<in> set ''0123456789abcdef''"
proof -
  have "d mod 16 < length ''0123456789abcdef''" by simp
  then show ?thesis unfolding hex_digit_def by (rule nth_mem)
qed

lemma hex_digest_chars: "set (hex_digest bs) \<subseteq> set ''0123456789abcdef''"
  unfolding hex_digest_def using hex_digit_in by (induction bs) auto

lemma inherited_not_hex:
  "list_all (\<lambda>n. \<exists>c \<in> set n. c \<notin> set ''0123456789abcdef'') Object_prototype_names"
  by code_simp

lemma hex_digest_not_inherited: "hex_digest bs \<notin> set Object_prototype_names"
proof
  assume "hex_digest bs \<in> set Object_prototype_names"
  with inherited_not_hex
  have "\<exists>c \<in> set (hex_digest bs). c \<notin> set ''0123456789abcdef''"
    unfolding list_all_iff by blast
  then show False using hex_digest_chars by blast
qed

lemma proto_inherited: "''__proto__'' \<in> set Object_prototype_names"
  by code_simp

lemma hex_digest_not_proto: "hex_digest bs \<noteq> ''__proto__''"
  using hex_digest_not_inherited[of bs] proto_inherited by metis

subsection \<open>The example manager\<close>

lemma generateExpression_example:
  "generateExpression zero_draws 0 default_operators 1 1 [Num (Fin 2)]
     = Inr ([lit 2, lit 2, Op plus_op], 4)"
  by (simp add: zero_draws_def generateExpression_def generate_loop.simps push_values.simps randInt_def
      element_def default_operators_def plus_op_def value_at_def lit_def)

lemma latex_example: "latex fmt [lit 2, lit 2, Op plus_op] = (''2 + 2'', [])"
  by (simp add: latex.simps latex_args.simps pop_def plus_op_def lit_def toString_def
      numToString_def decimal.simps digit_def substitute_def replace_def grouped_def
      top_token_def)

lemma solve_example: "solve [lit 2, lit 2, Op plus_op] = (Num (Fin 4), [])"
  by (simp add: solve.simps pop_def plus_op_def lit_def binary_def arg_def numeral_2_eq_2)

lemma hex_digest_example: "hex_digest [171] = ''ab''"
  by (simp add: hex_digest_def hex_digit_def)

lemma generate_start_example:
  "generate_start example_md5 fmt zero_draws 0 (captcha example_options)
     = Inr (''ab'', 4, example_pending)"
  by (simp add: generate_start_def captcha_def example_options_def generateExpression_example
      latex_example solve_example example_md5_def hex_digest_example example_pending_def
      example_record_def Let_def)

subsection \<open>\<open>check\<close>\<close>



subsection \<open>\<open>cleanup\<close>\<close>

lemma cleanup_unknown: "lookup (captchas s) key = Undef \<Longrightarrow> cleanup s key = s"
  by (simp add: cleanup_def)

lemma lookup_after_cleanup:
  "key \<noteq> ''__proto__'' \<Longrightarrow> lookup (captchas (cleanup s key)) key = Undef"
  by (cases "lookup (captchas s) key") (simp_all add: cleanup_def lookup_set_undefined)

lemma cleanup_idempotent:
  "key \<noteq> ''__proto__'' \<Longrightarrow> cleanup (cleanup s key) key = cleanup s key"
  by (simp add: cleanup_unknown lookup_after_cleanup)

lemma cleanup_live:
  "captchas s key = Some (Some r) \<Longrightarrow>
     cleanup s key =
       s\<lparr>timers := clearTimeout (rec_handler r) (timers s),
         captchas := (if key = ''__proto__'' then captchas s else (captchas s)(key \<mapsto> None)),
         commands := commands s @ [rm_command (path (options s)) key]\<rparr>"
  by (simp add: cleanup_def set_undefined_def)

text \<open>
  For a key that is not the name of a member of \<open>Object.prototype\<close>, \<open>cleanup\<close> does what
  its documentation says: nothing when the key has no record; otherwise the timer is
  cleared and the record is gone, a second call changes nothing, and \<open>getImage\<close> and
  \<open>check\<close> no longer know the key.
\<close>

lemma cleanup_own_keys:
  assumes "key \<notin> set Object_prototype_names"
  shows "(captchas s key = None \<or> captchas s key = Some None \<longrightarrow> cleanup s key = s)
    \<and> (captchas s key = Some (Some r) \<longrightarrow>
          captchas (cleanup s key) = (captchas s)(key \<mapsto> None)
          \<and> timers (cleanup s key) = clearTimeout (rec_handler r) (timers s))
    \<and> cleanup (cleanup s key) key = cleanup s key
    \<and> getImage (cleanup s key) key = Null
    \<and> \<not> check (cleanup s key) key answer places"
proof -
  from assms proto_inherited have np: "key \<noteq> ''__proto__''" by metis
  have "lookup (captchas (cleanup s key)) key = Undef"
    using np by (rule lookup_after_cleanup)
  then have "behaves_unknown (cleanup s key) key answer places"
    by (rule undef_behaves_unknown)
  moreover have "captchas s key = None \<or> captchas s key = Some None \<Longrightarrow> cleanup s key = s"
    using assms by (auto simp: cleanup_def lookup_def)
  moreover have "captchas s key = Some (Some r) \<Longrightarrow>
          captchas (cleanup s key) = (captchas s)(key \<mapsto> None)
          \<and> timers (cleanup s key) = clearTimeout (rec_handler r) (timers s)"
    using np by (simp add: cleanup_live)
  ultimately show ?thesis
    using np by (simp add: behaves_unknown_def cleanup_idempotent)
qed

text \<open>
  Claim C7, at the key \<open>constructor\<close> on a manager that has generated nothing. The key has
  no record, but the read \<open>this.captchas[key]\<close> finds the function inherited under that
  name, so \<open>cleanup\<close> enters its branch: the object gains a property \<open>constructor\<close> and
  \<open>rm\<close> is started. The call is not the no-op the claim states for an unknown key.
\<close>

theorem cleanup_inherited_name:
  "captchas (captcha default_options) ''constructor'' = None
   \<and> captchas (cleanup (captcha default_options) ''constructor'') ''constructor'' = Some None
   \<and> commands (captcha default_options) = []
   \<and> commands (cleanup (captcha default_options) ''constructor'') =
       [''rm /tmp/math-captcha/constructor.tex,/tmp/math-captcha/constructor.aux,/tmp/math-captcha/constructor.dvi,/tmp/math-captcha/constructor.png,/tmp/math-captcha/constructor.log'']
   \<and> cleanup (captcha default_options) ''constructor'' \<noteq> captcha default_options"
proof -
  have l: "lookup (captchas (captcha default_options)) ''constructor'' = Inherited"
    by (simp add: lookup_def captcha_def Object_prototype_names_def)
  have c: "captchas (cleanup (captcha default_options) ''constructor'') ''constructor'' = Some None"
    using l by (simp add: cleanup_def set_undefined_def)
  have n: "captchas (captcha default_options) ''constructor'' = None"
    by (simp add: captcha_def)
  have m: "commands (cleanup (captcha default_options) ''constructor'') =
       [''rm /tmp/math-captcha/constructor.tex,/tmp/math-captcha/constructor.aux,/tmp/math-captcha/constructor.dvi,/tmp/math-captcha/constructor.png,/tmp/math-captcha/constructor.log'']"
    using l by (simp add: cleanup_def rm_command_def captcha_def default_options_def)
  have "cleanup (captcha default_options) ''constructor'' \<noteq> captcha default_options"
    using c n by auto
  with c n m show ?thesis by (simp add: captcha_def)
qed

subsection \<open>\<open>generate\<close>\<close>

lemma generate_start_Inr:
  assumes "generate_start md5 fmt rnd k s = Inr (key, k', s1)"
  shows "\<exists>e doc answer bs.
           key = hex_digest bs
         \<and> generateExpression rnd k (operators s) (minOps (options s)) (maxOps (options s))
               (values_pool (options s)) = Inr (e, k')
         \<and> s1 = s\<lparr>captchas := (captchas s)(key \<mapsto>
                     Some \<lparr>rec_exp = e, rec_latex = doc, rec_answer = answer,
                           rec_file = path (options s) @ ''/'' @ key @ ''.png'',
                           rec_handler = None\<rparr>)\<rparr>"
  using assms
  by (auto simp: generate_start_def Let_def split: sum.splits prod.splits)

text \<open>
  Claim C6. Let \<open>generate\<close> have drawn its expression and stored the record under \<open>key\<close>.
  If the first stage that fails is any of the three, with error \<open>err\<close>, then \<open>generate\<close>
  reports \<open>failure(err)\<close>, the record is gone, no timer has been armed, and \<open>getImage\<close>,
  \<open>check\<close> and \<open>cleanup\<close> treat the key as one they do not know. If no stage fails,
  \<open>generate\<close> reports \<open>success(key)\<close>, and a timer for this key with a delay of
  \<open>cleanupTime * 1000\<close> milliseconds is armed and noted in the record.
\<close>

theorem generate_stages:
  assumes "generate_start md5 fmt rnd k s = Inr (key, k', s1)"
  shows "(write_err st = Some err
          \<or> write_err st = None \<and> tex_err st = Some err
          \<or> write_err st = None \<and> tex_err st = None \<and> dvipng_err st = Some err \<longrightarrow>
           (\<exists>s'. generate md5 fmt rnd k st s = Inr (s', Failure err)
                \<and> captchas s' = (captchas s1)(key \<mapsto> None)
                \<and> timers s' = timers s
                \<and> behaves_unknown s' key answer places))
       \<and> (write_err st = None \<and> tex_err st = None \<and> dvipng_err st = None \<longrightarrow>
           (\<exists>s' r. generate md5 fmt rnd k st s = Inr (s', Success key)
                \<and> captchas s' key = Some (Some r)
                \<and> rec_handler r = Some (next_timer s)
                \<and> timers s' = (timers s)(next_timer s \<mapsto> (key, cleanupTime (options s) * 1000))))"
proof -
  from generate_start_Inr [OF assms] obtain e doc ans bs where
    key: "key = hex_digest bs" and
    s1: "s1 = s\<lparr>captchas := (captchas s)(key \<mapsto>
                     Some \<lparr>rec_exp = e, rec_latex = doc, rec_answer = ans,
                           rec_file = path (options s) @ ''/'' @ key @ ''.png'',
                           rec_handler = None\<rparr>)\<rparr>"
    by blast
  have np: "key \<noteq> ''__proto__''"
    unfolding key by (rule hex_digest_not_proto)
  let ?f = "s1\<lparr>captchas := set_undefined (captchas s1) key\<rparr>"
  have gen: "generate md5 fmt rnd k st s = generate_finish s1 key st"
    using assms by (simp add: generate_def)
  have undef: "lookup (captchas ?f) key = Undef"
    using np by (simp add: lookup_set_undefined)
  have unknown: "behaves_unknown ?f key answer places"
    using undef by (rule undef_behaves_unknown)
  have same: "captchas ?f = (captchas s1)(key \<mapsto> None)" "timers ?f = timers s"
    using np by (simp_all add: set_undefined_def s1)
  have failure: "generate md5 fmt rnd k st s = Inr (?f, Failure err)"
    if "write_err st = Some err
          \<or> write_err st = None \<and> tex_err st = Some err
          \<or> write_err st = None \<and> tex_err st = None \<and> dvipng_err st = Some err"
    using that unfolding gen by (auto simp: generate_finish_def)
  have rec: "lookup (captchas s1) key = Record \<lparr>rec_exp = e, rec_latex = doc, rec_answer = ans,
                           rec_file = path (options s) @ ''/'' @ key @ ''.png'',
                           rec_handler = None\<rparr>"
    by (simp add: s1 lookup_def)
  have success: "\<exists>s' r. generate md5 fmt rnd k st s = Inr (s', Success key)
                \<and> captchas s' key = Some (Some r)
                \<and> rec_handler r = Some (next_timer s)
                \<and> timers s' = (timers s)(next_timer s \<mapsto> (key, cleanupTime (options s) * 1000))"
    if "write_err st = None \<and> tex_err st = None \<and> dvipng_err st = None"
    using that unfolding gen by (simp add: generate_finish_def rec arm_timer_def) (simp add: s1)
  show ?thesis
    using failure unknown same success by blast
qed

theorem generate_stages_witness:
  "(\<exists>s'. generate example_md5 no_digits zero_draws 0 typesetter_fails (captcha example_options)
            = Inr (s', Failure ''exit 1'')
         \<and> captchas s' = (captchas example_pending)(''ab'' \<mapsto> None)
         \<and> timers s' = timers (captcha example_options)
         \<and> behaves_unknown s' ''ab'' (Fin 4) 0)
   \<and> (\<exists>s' r. generate example_md5 no_digits zero_draws 0 all_succeed (captcha example_options)
            = Inr (s', Success ''ab'')
         \<and> captchas s' ''ab'' = Some (Some r)
         \<and> rec_handler r = Some 0
         \<and> timers s' = [0 \<mapsto> (''ab'', 600000)])"
  using generate_stages [OF generate_start_example, of typesetter_fails "''exit 1''" no_digits "Fin 4" 0]
    generate_stages [OF generate_start_example, of all_succeed "''exit 1''" no_digits "Fin 4" 0]
  by (simp add: typesetter_fails_def all_succeed_def captcha_def example_options_def)

subsection \<open>\<open>getImage\<close>\<close>

text \<open>
  Claim C8 as stated fails: \<open>generate\<close> stores the record, with the path of the image,
  before the first stage starts, and \<open>getImage\<close> tests only that a record is there. On
  the example manager it returns the path while nothing has been written yet.
\<close>

theorem getImage_pending_counterexample:
  "generate_start example_md5 no_digits zero_draws 0 (captcha example_options)
     = Inr (''ab'', 4, example_pending)
   \<and> timers example_pending = Map.empty
   \<and> getImage example_pending ''ab'' = Path ''/tmp/math-captcha/ab.png''
   \<and> getImage example_pending ''ab'' \<noteq> Null"
  by (simp add: generate_start_example)
    (simp add: getImage_def lookup_def example_pending_def example_record_def captcha_def)

text \<open>
  Claim C8 as amended. \<open>getImage\<close> returns a value and no state. It returns the stored
  path for every key that has a record, from the moment \<open>generate\<close> has stored it, when
  no stage has run and no timer is armed; it returns \<open>null\<close> for a key whose property is
  \<open>undefined\<close> and for a key that is neither a property nor a name inherited from
  \<open>Object.prototype\<close>.
\<close>

theorem getImage_stored:
  "(captchas s key = Some (Some r) \<longrightarrow> getImage s key = Path (rec_file r))
   \<and> (captchas s key = Some None
        \<or> captchas s key = None \<and> key \<notin> set Object_prototype_names \<longrightarrow>
      getImage s key = Null)
   \<and> (generate_start md5 fmt rnd k s = Inr (key, k', s') \<longrightarrow>
      getImage s' key = Path (path (options s) @ ''/'' @ key @ ''.png'')
      \<and> timers s' = timers s)"
proof (intro conjI impI)
  assume "captchas s key = Some (Some r)"
  then show "getImage s key = Path (rec_file r)"
    by (simp add: getImage_def)
next
  assume "captchas s key = Some None
        \<or> captchas s key = None \<and> key \<notin> set Object_prototype_names"
  then have "lookup (captchas s) key = Undef"
    by (auto simp: lookup_def)
  then show "getImage s key = Null"
    by (simp add: getImage_def)
next
  assume "generate_start md5 fmt rnd k s = Inr (key, k', s')"
  from generate_start_Inr [OF this]
  show "getImage s' key = Path (path (options s) @ ''/'' @ key @ ''.png'')"
    and "timers s' = timers s"
    by (auto simp: getImage_def lookup_def)
qed

theorem getImage_stored_witness:
  "getImage example_pending ''ab'' = Path ''/tmp/math-captcha/ab.png''
   \<and> getImage (captcha example_options) ''ab'' = Null
   \<and> timers example_pending = timers (captcha example_options)"
  using getImage_stored [of example_pending "''ab''" example_record]
    getImage_stored [of "captcha example_options" "''ab''" example_record example_md5 no_digits
      zero_draws 0 4 example_pending]
  by (simp add: generate_start_example)
    (simp add: example_pending_def example_record_def captcha_def example_options_def
      Object_prototype_names_def)

subsection \<open>\<open>solve\<close> on the stack of a tree\<close>

lemma pop_snoc [simp]: "pop (e @ [t]) = (t, e)"
  by (simp add: pop_def)

lemma solve_Val [simp]: "solve (e @ [Val v]) = (v, e)"
  by (simp add: solve.simps)

lemma solve_Op:
  "solve (e @ [Op ex]) =
     (case solve_args (op_arity ex) e of (args, e') \<Rightarrow> (op_op ex args, e'))"
  by (simp add: solve.simps)

lemma solve_stack_of:
  "arity_ok t \<Longrightarrow> solve (e @ stack_of t) = (value_of t, e)"
proof (induction t arbitrary: e)
  case (Leaf v)
  show ?case by simp
next
  case (Node ex ts)
  have args: "list_all arity_ok us \<Longrightarrow> set us \<subseteq> set ts \<Longrightarrow>
      solve_args (length us) (e' @ concat (map stack_of (rev us))) = (map value_of us, e')"
    for us e'
  proof (induction us arbitrary: e')
    case Nil
    show ?case by simp
  next
    case (Cons u us)
    have "solve ((e' @ concat (map stack_of (rev us))) @ stack_of u)
            = (value_of u, e' @ concat (map stack_of (rev us)))"
      using Cons.prems by (intro Node.IH) auto
    then show ?case using Cons by simp
  qed
  from Node.prems have "length ts = op_arity ex" "list_all arity_ok ts" by simp_all
  with args [of ts e] show ?case
    by (simp add: solve_Op [of "e @ concat (map stack_of (rev ts))", simplified])
qed

text \<open>
  Claim C4. \<open>solve\<close> pops one token. A value is returned as it is. For an operator
  whose \<open>arity\<close> operands lie below it, each a well-formed stack of its own, the operand
  nearest the end of the array is solved first and becomes the first argument of the
  evaluation function, the one below it the second, and so on; the tokens below the
  operands are left on the array.
\<close>

theorem solve_pop_order:
  "solve (e @ [Val v]) = (v, e)
   \<and> (list_all arity_ok ts \<and> length ts = op_arity ex \<longrightarrow>
        solve (e @ concat (map stack_of (rev ts)) @ [Op ex])
          = (op_op ex (map (\<lambda>t. fst (solve (stack_of t))) ts), e))
   \<and> (arity_ok t \<and> list_all arity_ok ts \<and> Suc (length ts) = op_arity ex \<longrightarrow>
        solve (e @ concat (map stack_of (rev ts)) @ stack_of t @ [Op ex])
          = (op_op ex (fst (solve (stack_of t)) # map (\<lambda>t. fst (solve (stack_of t))) ts), e))"
proof -
  have val: "fst (solve (stack_of u)) = value_of u" if "arity_ok u" for u
    using solve_stack_of [OF that, of "[]"] by simp
  have node: "solve (e @ concat (map stack_of (rev us)) @ [Op ex])
          = (op_op ex (map (\<lambda>t. fst (solve (stack_of t))) us), e)"
    if "list_all arity_ok us" "length us = op_arity ex" for us
  proof -
    have "arity_ok (Node ex us)" using that by simp
    from solve_stack_of [OF this, of e]
    have "solve (e @ concat (map stack_of (rev us)) @ [Op ex]) = (op_op ex (map value_of us), e)"
      by simp
    moreover have "map value_of us = map (\<lambda>t. fst (solve (stack_of t))) us"
      using that(1) by (intro map_cong refl) (simp add: val list_all_iff)
    ultimately show ?thesis by simp
  qed
  have "solve (e @ concat (map stack_of (rev ts)) @ stack_of t @ [Op ex])
          = (op_op ex (fst (solve (stack_of t)) # map (\<lambda>t. fst (solve (stack_of t))) ts), e)"
    if "arity_ok t \<and> list_all arity_ok ts \<and> Suc (length ts) = op_arity ex"
    using node [of "t # ts"] that by simp
  then show ?thesis using node [of ts] by simp
qed

theorem solve_pop_order_witness:
  "solve [lit 1, lit 3, Op minus_op] = (Num (Fin 2), [])
   \<and> solve [lit 5, lit 4, Op minus_op, lit 3, Op minus_op] = (Num (Fin 4), [])"
  using solve_pop_order [of "[]" Undefined "[Leaf (Num (Fin 3)), Leaf (Num (Fin 1))]" minus_op]
    solve_pop_order [of "[]" Undefined "[Node minus_op [Leaf (Num (Fin 4)), Leaf (Num (Fin 5))]]"
       minus_op "Leaf (Num (Fin 3))"]
  by (simp add: lit_def minus_op_def binary_def arg_def js_sub_def solve.simps pop_def
      numeral_2_eq_2)

subsection \<open>\<open>latex\<close> on the stack of a tree\<close>

lemma latex_Val [simp]: "latex fmt (e @ [Val v]) = (toString fmt v, e)"
  by (simp add: latex.simps)

lemma latex_Op:
  "latex fmt (e @ [Op ex]) =
     (case latex_args fmt ex 0 e of (args, e') \<Rightarrow> (substitute (op_latex ex) args, e'))"
  by (simp add: latex.simps)

lemma stack_of_snoc: "\<exists>e' t'. stack_of t = e' @ [t'] \<and> precedence t' = head_precedence t"
  by (cases t) auto

lemma top_stack_of [simp]: "precedence (top_token (e @ stack_of t)) = head_precedence t"
proof -
  from stack_of_snoc [of t] obtain e' t' where "stack_of t = e' @ [t']"
    and "precedence t' = head_precedence t" by blast
  then show ?thesis by (simp add: top_token_def)
qed

lemma latex_stack_of:
  "arity_ok t \<Longrightarrow> latex fmt (e @ stack_of t) = (render fmt t, e)"
proof (induction t arbitrary: e)
  case (Leaf v)
  show ?case by simp
next
  case (Node ex ts)
  have args: "list_all arity_ok us \<Longrightarrow> set us \<subseteq> set ts \<Longrightarrow> i + length us = op_arity ex \<Longrightarrow>
      latex_args fmt ex i (e' @ concat (map stack_of (rev us)))
        = (render_operands fmt ex i us, e')"
    for us e' i
  proof (induction us arbitrary: e' i)
    case Nil
    then show ?case by (simp add: latex_args.simps)
  next
    case (Cons u us)
    let ?rest = "e' @ concat (map stack_of (rev us))"
    have one: "latex fmt (e' @ concat (map stack_of (rev us)) @ stack_of u) = (render fmt u, ?rest)"
      using Cons.prems Node.IH [of u ?rest] by simp
    have tp: "precedence (top_token (e' @ concat (map stack_of (rev us)) @ stack_of u))
        = head_precedence u"
      using top_stack_of [of ?rest u] by simp
    have more: "latex_args fmt ex (Suc i) ?rest = (render_operands fmt ex (Suc i) us, e')"
      using Cons.prems by (intro Cons.IH) auto
    have "i < op_arity ex" using Cons.prems by simp
    then have "latex_args fmt ex i (e' @ concat (map stack_of (rev us)) @ stack_of u)
        = (render_operands fmt ex i (u # us), e')"
      by (subst latex_args.simps) (simp add: one more tp)
    then show ?case by simp
  qed
  from Node.prems have "0 + length ts = op_arity ex" "list_all arity_ok ts" by simp_all
  with args [of ts 0 e] show ?case
    by (simp add: latex_Op [of fmt "e @ concat (map stack_of (rev ts))", simplified])
qed

lemma render_operands_enumerate:
  "render_operands fmt ex i ts =
     map (\<lambda>(j, t). if grouped ex j (head_precedence t) then ''('' @ render fmt t @ '')''
                     else render fmt t) (enumerate i ts)"
  by (induction ts arbitrary: i) simp_all

text \<open>
  Claim C3. When \<open>latex\<close> renders an operator over its operands, operand \<open>i\<close> (counted
  from \<open>0\<close> in the order of popping) is put in parentheses exactly when the operator has
  \<open>doGroup\<close>, \<open>i\<close> is not the first position, the head of the operand has a precedence
  other than \<open>0\<close>, and that precedence is greater than the operator's or the operator is
  not associative. A value has precedence \<open>0\<close>. The two subtractions of the claim are
  rendered as it says.
\<close>

theorem latex_parenthesises:
  "(list_all arity_ok ts \<and> length ts = op_arity ex \<longrightarrow>
      latex fmt (e @ concat (map stack_of (rev ts)) @ [Op ex])
        = (substitute (op_latex ex)
             (map (\<lambda>(i, t).
                     if op_doGroup ex \<and> i \<noteq> 0 \<and> head_precedence t \<noteq> 0
                        \<and> (op_precedence ex < head_precedence t \<or> \<not> op_associative ex)
                     then ''('' @ fst (latex fmt (stack_of t)) @ '')''
                     else fst (latex fmt (stack_of t)))
                  (enumerate 0 ts)),
           e))
   \<and> head_precedence (Leaf v) = 0
   \<and> fst (latex fmt [lit 5, lit 4, Op minus_op, lit 3, Op minus_op]) = ''3 - (4 - 5)''
   \<and> fst (latex fmt [lit 5, lit 4, lit 3, Op minus_op, Op minus_op]) = ''3 - 4 - 5''"
proof -
  have rendered: "fst (latex fmt (stack_of u)) = render fmt u" if "arity_ok u" for u
    using latex_stack_of [OF that, of fmt "[]"] by simp
  have node: "latex fmt (e @ concat (map stack_of (rev ts)) @ [Op ex])
        = (substitute (op_latex ex)
             (map (\<lambda>(i, t).
                     if op_doGroup ex \<and> i \<noteq> 0 \<and> head_precedence t \<noteq> 0
                        \<and> (op_precedence ex < head_precedence t \<or> \<not> op_associative ex)
                     then ''('' @ fst (latex fmt (stack_of t)) @ '')''
                     else fst (latex fmt (stack_of t)))
                  (enumerate 0 ts)),
           e)"
    if ok: "list_all arity_ok ts" and len: "length ts = op_arity ex"
  proof -
    have "arity_ok (Node ex ts)" using that by simp
    from latex_stack_of [OF this, of fmt e]
    have "latex fmt (e @ concat (map stack_of (rev ts)) @ [Op ex])
        = (substitute (op_latex ex) (render_operands fmt ex 0 ts), e)"
      by simp
    moreover have "render_operands fmt ex 0 ts =
        map (\<lambda>(i, t).
                     if op_doGroup ex \<and> i \<noteq> 0 \<and> head_precedence t \<noteq> 0
                        \<and> (op_precedence ex < head_precedence t \<or> \<not> op_associative ex)
                     then ''('' @ fst (latex fmt (stack_of t)) @ '')''
                     else fst (latex fmt (stack_of t)))
                  (enumerate 0 ts)"
      unfolding render_operands_enumerate
    proof (intro map_cong refl)
      fix p assume "p \<in> set (enumerate 0 ts)"
      then have "snd p \<in> snd ` set (enumerate 0 ts)" by (rule imageI)
      then have "snd p \<in> set ts" by (simp flip: set_map)
      then have "arity_ok (snd p)" using ok by (simp add: list_all_iff)
      then show "(case p of (j, t) \<Rightarrow>
                if grouped ex j (head_precedence t) then ''('' @ render fmt t @ '')''
                else render fmt t) =
             (case p of (i, t) \<Rightarrow>
                if op_doGroup ex \<and> i \<noteq> 0 \<and> head_precedence t \<noteq> 0
                   \<and> (op_precedence ex < head_precedence t \<or> \<not> op_associative ex)
                then ''('' @ fst (latex fmt (stack_of t)) @ '')''
                else fst (latex fmt (stack_of t)))"
        by (cases p) (simp add: rendered grouped_def)
    qed
    ultimately show ?thesis by simp
  qed
  have a: "fst (latex fmt [lit 5, lit 4, Op minus_op, lit 3, Op minus_op]) = ''3 - (4 - 5)''"
    by (simp add: latex.simps latex_args.simps pop_def minus_op_def lit_def toString_def
      numToString_def decimal.simps digit_def substitute_def replace_def grouped_def
      top_token_def)
  have b: "fst (latex fmt [lit 5, lit 4, lit 3, Op minus_op, Op minus_op]) = ''3 - 4 - 5''"
    by (simp add: latex.simps latex_args.simps pop_def minus_op_def lit_def toString_def
      numToString_def decimal.simps digit_def substitute_def replace_def grouped_def
      top_token_def)
  show ?thesis using node a b by simp
qed

theorem latex_parenthesises_witness:
  "latex no_digits [lit 5, lit 4, Op minus_op, lit 3, Op minus_op] = (''3 - (4 - 5)'', [])
   \<and> latex no_digits [lit 5, lit 4, lit 3, Op times_op, Op plus_op]
       = (''3 '' @ [backslash] @ ''times 4 + 5'', [])"
  using latex_parenthesises [of "[Leaf (Num (Fin 3)), Node minus_op [Leaf (Num (Fin 4)), Leaf (Num (Fin 5))]]"
       minus_op no_digits "[]"]
    latex_parenthesises [of "[Node times_op [Leaf (Num (Fin 3)), Leaf (Num (Fin 4))], Leaf (Num (Fin 5))]"
       plus_op no_digits "[]"]
  by (simp add: lit_def minus_op_def plus_op_def times_op_def latex.simps latex_args.simps pop_def
       toString_def numToString_def decimal.simps digit_def substitute_def replace_def
       grouped_def top_token_def enumerate_eq_zip upt_rec backslash_def)

subsection \<open>\<open>generateExpression\<close> returns\<close>

lemma randInt_range:
  assumes "0 \<le> r" "r < 1" "n \<le> m"
  shows "n \<le> randInt n m r" "randInt n m r \<le> m"
proof -
  define d where "d = m - n + 1"
  have pos: "0 < (of_int d :: rat)" using assms(3) by (simp add: d_def)
  have "0 \<le> r * of_int d" using assms(1) pos by simp
  then have lo: "0 \<le> \<lfloor>r * of_int d\<rfloor>" by simp
  have "r * of_int d < of_int d" using assms(2) pos by simp
  then have hi: "\<lfloor>r * of_int d\<rfloor> < d" by (simp only: floor_less_iff)
  show "n \<le> randInt n m r" using lo by (simp add: randInt_def d_def)
  show "randInt n m r \<le> m" using hi by (simp add: randInt_def d_def)
qed

lemma element_drawn:
  assumes "random_source rnd" "xs \<noteq> []"
  shows "\<exists>x \<in> set xs. element xs (randInt 0 (int (length xs) - 1) (rnd k)) = Some x"
proof -
  from assms(1) have r: "0 \<le> rnd k" "rnd k < 1" by (simp_all add: random_source_def)
  from assms(2) have "0 \<le> int (length xs) - 1" by (cases xs) simp_all
  from randInt_range [OF r this]
  have "0 \<le> randInt 0 (int (length xs) - 1) (rnd k)"
    and "randInt 0 (int (length xs) - 1) (rnd k) < int (length xs)" by simp_all
  then show ?thesis by (simp add: element_def)
qed

lemma generate_loop_returns:
  "random_source rnd \<Longrightarrow> ops \<noteq> [] \<Longrightarrow> \<exists>res. generate_loop rnd ops vs i n st = Inr res"
proof (induction rnd ops vs i n st rule: generate_loop.induct)
  case (1 rnd ops vs i n rtn valCount k)
  show ?case
  proof (cases "i < n")
    case False
    then show ?thesis by (simp add: generate_loop.simps)
  next
    case True
    from element_drawn [OF "1.prems", of k] obtain ex where
      ex: "element ops (randInt 0 (int (length ops) - 1) (rnd k)) = Some ex" by blast
    obtain rtn' valCount' k' where
      pv: "push_values rnd vs ex (rtn, valCount, Suc k) = (rtn', valCount', k')"
      by (cases "push_values rnd vs ex (rtn, valCount, Suc k)") auto
    from "1.IH" [OF True ex pv [symmetric] refl "1.prems"]
    show ?thesis using True ex pv by (subst generate_loop.simps) simp
  qed
qed

lemma element_Nil [simp]: "element [] i = None"
  by (simp add: element_def)

lemma random_source_zero_draws: "random_source zero_draws"
  by (simp add: random_source_def zero_draws_def)

text \<open>
  Claim C9 as stated fails: \<open>generateExpression\<close> tests none of its parameters. With both
  bounds \<open>0\<close> and an empty pool it returns the empty stack; with an empty pool it returns
  a stack whose values are \<open>undefined\<close>; with \<open>minOps = 2\<close> above \<open>maxOps = 1\<close> it returns a
  stack of two operators.
\<close>

theorem generateExpression_unvalidated_counterexample:
  "generateExpression zero_draws 0 default_operators 0 0 [] = Inr ([], 1)
   \<and> generateExpression zero_draws 0 default_operators 1 1 []
       = Inr ([Val Undefined, Val Undefined, Op plus_op], 4)
   \<and> generateExpression zero_draws 0 default_operators 2 1 [Num (Fin 2)]
       = Inr ([lit 2, lit 2, Op plus_op, lit 2, Op plus_op], 6)"
  by (simp add: zero_draws_def generateExpression_def generate_loop.simps push_values.simps
      randInt_def element_def default_operators_def plus_op_def value_at_def lit_def)

text \<open>
  Claim C9 as amended. \<open>generateExpression\<close> validates nothing and has no error of its own.
  With a registry that is not empty it returns a stack whatever the bounds and the pool
  are; when the number of operators it has drawn is below \<open>1\<close> the stack is empty. The only
  failure is the \<open>TypeError\<close> of reading \<open>arity\<close> of an operator drawn from an empty
  registry.
\<close>

theorem generateExpression_unvalidated:
  "(random_source rnd \<and> ops \<noteq> [] \<longrightarrow>
      (\<exists>e k'. generateExpression rnd k ops lo hi vs = Inr (e, k')))
   \<and> (randInt lo hi (rnd k) \<le> 0 \<longrightarrow>
      generateExpression rnd k ops lo hi vs = Inr ([], Suc k))
   \<and> (ops = [] \<and> 0 < randInt lo hi (rnd k) \<longrightarrow>
      generateExpression rnd k ops lo hi vs = Inl TypeError)"
proof (intro conjI impI)
  assume "random_source rnd \<and> ops \<noteq> []"
  then have "random_source rnd" and "ops \<noteq> []" by simp_all
  from generate_loop_returns [OF this, of vs 0 "randInt lo hi (rnd k)" "([], 0, Suc k)"]
  obtain res where
    "generate_loop rnd ops vs 0 (randInt lo hi (rnd k)) ([], 0, Suc k) = Inr res" ..
  then show "\<exists>e k'. generateExpression rnd k ops lo hi vs = Inr (e, k')"
    by (cases res) (simp add: generateExpression_def)
next
  assume "randInt lo hi (rnd k) \<le> 0"
  then show "generateExpression rnd k ops lo hi vs = Inr ([], Suc k)"
    by (simp add: generateExpression_def generate_loop.simps [of _ _ _ 0])
next
  assume "ops = [] \<and> 0 < randInt lo hi (rnd k)"
  then show "generateExpression rnd k ops lo hi vs = Inl TypeError"
    by (simp add: generateExpression_def generate_loop.simps [of _ _ _ 0])
qed

theorem generateExpression_unvalidated_witness:
  "(\<exists>e k'. generateExpression zero_draws 0 default_operators 5 3 [] = Inr (e, k'))
   \<and> generateExpression zero_draws 0 default_operators 0 0 [] = Inr ([], 1)
   \<and> generateExpression zero_draws 0 [] 3 5 [Num (Fin 2)] = Inl TypeError"
proof -
  have ops: "random_source zero_draws \<and> default_operators \<noteq> []"
    by (simp add: random_source_zero_draws default_operators_def)
  have none: "randInt 0 0 (zero_draws 0) \<le> 0"
    by (simp add: randInt_def zero_draws_def)
  have some: "([] :: operator list) = [] \<and> 0 < randInt 3 5 (zero_draws 0)"
    by (simp add: randInt_def zero_draws_def)
  have a: "\<exists>e k'. generateExpression zero_draws 0 default_operators 5 3 [] = Inr (e, k')"
    using generateExpression_unvalidated [of zero_draws default_operators 0 5 3 "[]",
        THEN conjunct1, THEN mp, OF ops] .
  have b: "generateExpression zero_draws 0 default_operators 0 0 [] = Inr ([], 1)"
    using generateExpression_unvalidated [of zero_draws default_operators 0 0 0 "[]",
        THEN conjunct2, THEN conjunct1, THEN mp, OF none] by simp
  have c: "generateExpression zero_draws 0 [] 3 5 [Num (Fin 2)] = Inl TypeError"
    using generateExpression_unvalidated [of zero_draws "[]" 0 3 5 "[Num (Fin 2)]",
        THEN conjunct2, THEN conjunct2, THEN mp, OF some] .
  from a b c show ?thesis by simp
qed

subsection \<open>Well-formed stacks\<close>

lemma consume_stack_of:
  "arity_ok t \<Longrightarrow> consume (Suc n) (rev (stack_of t) @ rest) = consume n rest"
proof (induction t arbitrary: n rest)
  case (Leaf v)
  show ?case by simp
next
  case (Node ex ts)
  have operands: "list_all arity_ok us \<Longrightarrow> set us \<subseteq> set ts \<Longrightarrow>
      consume (m + length us) (concat (map (\<lambda>u. rev (stack_of u)) us) @ rest') = consume m rest'"
    for us m rest'
  proof (induction us arbitrary: m)
    case Nil
    show ?case by simp
  next
    case (Cons u us)
    have "consume (Suc (m + length us))
            (rev (stack_of u) @ concat (map (\<lambda>u. rev (stack_of u)) us) @ rest')
          = consume (m + length us) (concat (map (\<lambda>u. rev (stack_of u)) us) @ rest')"
      using Cons.prems by (intro Node.IH) auto
    then show ?case using Cons by simp
  qed
  from Node.prems have "length ts = op_arity ex" "list_all arity_ok ts" by simp_all
  with operands [of ts n rest] show ?case
    by (simp add: rev_concat rev_map o_def)
qed

lemma well_formed_stack_of: "arity_ok t \<Longrightarrow> well_formed (stack_of t)"
  using consume_stack_of [of t 0 "[]"] by (simp add: well_formed_def)

subsection \<open>The stacks that \<open>generateExpression\<close> returns\<close>

lemma element_in_set: "element xs i = Some x \<Longrightarrow> x \<in> set xs"
  by (auto simp: element_def split: if_splits)

lemma push_values_binary:
  assumes "op_arity ex = 2"
  shows "push_values rnd vs ex (rtn, 0, k)
      = (rtn @ [Val (value_at vs (randInt 0 (int (length vs) - 1) (rnd k))),
                Val (value_at vs (randInt 0 (int (length vs) - 1) (rnd (Suc k))))],
         2, Suc (Suc k))"
    and "push_values rnd vs ex (rtn, 1, k)
      = (rtn @ [Val (value_at vs (randInt 0 (int (length vs) - 1) (rnd k)))], 2, Suc k)"
proof -
  have stop: "push_values rnd vs ex (r, 2, j) = (r, 2, j)" for r j
    using assms by (subst push_values.simps) simp
  have one: "push_values rnd vs ex (r, 1, j)
      = (r @ [Val (value_at vs (randInt 0 (int (length vs) - 1) (rnd j)))], 2, Suc j)" for r j
    using assms by (subst push_values.simps) (simp add: stop)
  have two: "push_values rnd vs ex (r, 0, j)
      = push_values rnd vs ex
          (r @ [Val (value_at vs (randInt 0 (int (length vs) - 1) (rnd j)))], 1, Suc j)" for r j
    using assms by (subst push_values.simps) simp
  show "push_values rnd vs ex (rtn, 1, k)
      = (rtn @ [Val (value_at vs (randInt 0 (int (length vs) - 1) (rnd k)))], 2, Suc k)"
    by (rule one)
  show "push_values rnd vs ex (rtn, 0, k)
      = (rtn @ [Val (value_at vs (randInt 0 (int (length vs) - 1) (rnd k))),
                Val (value_at vs (randInt 0 (int (length vs) - 1) (rnd (Suc k))))],
         2, Suc (Suc k))"
    by (simp add: two one)
qed

text \<open>
  The invariant of the \<open>for\<close> loop over binary operators, for any kind \<open>P\<close> of trees that
  holds the values \<open>V\<close> that are drawn and is closed under putting an operator of the
  registry over a drawn value and such a tree.
\<close>

lemma generate_loop_binary:
  "\<forall>ex \<in> set ops. op_arity ex = 2 \<Longrightarrow>
   \<forall>j. V (value_at vs (randInt 0 (int (length vs) - 1) (rnd j))) \<Longrightarrow>
   \<forall>a. V a \<longrightarrow> P (Leaf a) \<Longrightarrow>
   \<forall>ex a t. ex \<in> set ops \<and> V a \<and> P t \<longrightarrow> P (Node ex [Leaf a, t]) \<Longrightarrow>
   between_operators P st \<Longrightarrow>
   generate_loop rnd ops vs i n st = Inr st' \<Longrightarrow>
   between_operators P st' \<and> (i < n \<longrightarrow> fst st' \<noteq> [])"
proof (induction rnd ops vs i n st rule: generate_loop.induct)
  case (1 rnd ops vs i n rtn valCount k)
  note binary = "1.prems"(1) and drawn = "1.prems"(2) and leaf = "1.prems"(3)
    and node = "1.prems"(4) and inv = "1.prems"(5) and result = "1.prems"(6)
  show ?case
  proof (cases "i < n")
    case False
    with inv result show ?thesis by (simp add: generate_loop.simps)
  next
    case True
    from result True obtain ex where
      ex: "element ops (randInt 0 (int (length ops) - 1) (rnd k)) = Some ex"
      by (subst (asm) generate_loop.simps) (auto split: option.splits)
    have mem: "ex \<in> set ops" using ex by (rule element_in_set)
    have ar: "op_arity ex = 2" using binary mem by (rule bspec)
    obtain rtn' valCount' k' where
      pv: "push_values rnd vs ex (rtn, valCount, Suc k) = (rtn', valCount', k')"
      by (cases "push_values rnd vs ex (rtn, valCount, Suc k)") auto
    let ?a = "value_at vs (randInt 0 (int (length vs) - 1) (rnd (Suc k)))"
    let ?b = "value_at vs (randInt 0 (int (length vs) - 1) (rnd (Suc (Suc k))))"
    have a: "V ?a" and b: "V ?b" using drawn by simp_all
    have next_state: "between_operators P (rtn' @ [Op ex], valCount' - 1, k')"
    proof -
      from inv consider "rtn = []" "valCount = 0"
        | t where "P t" "rtn = stack_of t" "valCount = 1"
        by (auto simp: between_operators_def)
      then show ?thesis
      proof cases
        case 1
        with push_values_binary(1) [OF ar, of rnd vs rtn "Suc k"] pv
        have "rtn' = [Val ?a, Val ?b]" "valCount' = 2" by auto
        then have "rtn' @ [Op ex] = stack_of (Node ex [Leaf ?b, Leaf ?a])" by simp
        moreover have "P (Node ex [Leaf ?b, Leaf ?a])" using node leaf mem a b by simp
        ultimately have "\<exists>t. P t \<and> rtn' @ [Op ex] = stack_of t" by (intro exI conjI)
        then show ?thesis using \<open>valCount' = 2\<close> by (simp add: between_operators_def)
      next
        case 2
        with push_values_binary(2) [OF ar, of rnd vs rtn "Suc k"] pv
        have "rtn' = stack_of t @ [Val ?a]" "valCount' = 2" by auto
        then have "rtn' @ [Op ex] = stack_of (Node ex [Leaf ?a, t])" by simp
        moreover have "P (Node ex [Leaf ?a, t])" using node mem a 2 by simp
        ultimately have "\<exists>t. P t \<and> rtn' @ [Op ex] = stack_of t" by (intro exI conjI)
        then show ?thesis using \<open>valCount' = 2\<close> by (simp add: between_operators_def)
      qed
    qed
    have step: "generate_loop rnd ops vs (i + 1) n (rtn' @ [Op ex], valCount' - 1, k') = Inr st'"
      using result True ex pv by (subst (asm) generate_loop.simps) simp
    from "1.IH" [OF True ex pv [symmetric] refl binary drawn leaf node next_state step]
    have inv': "between_operators P st'"
      and more: "i + 1 < n \<longrightarrow> fst st' \<noteq> []" by simp_all
    have "fst st' \<noteq> []"
    proof (cases "i + 1 < n")
      case True
      with more show ?thesis by simp
    next
      case False
      with step have "st' = (rtn' @ [Op ex], valCount' - 1, k')"
        by (subst (asm) generate_loop.simps) simp
      then show ?thesis by simp
    qed
    with inv' show ?thesis by simp
  qed
qed

lemma generateExpression_tree:
  assumes binary: "\<forall>ex \<in> set ops. op_arity ex = 2"
    and drawn: "\<forall>j. V (value_at vs (randInt 0 (int (length vs) - 1) (rnd j)))"
    and leaf: "\<forall>a. V a \<longrightarrow> P (Leaf a)"
    and node: "\<forall>ex a t. ex \<in> set ops \<and> V a \<and> P t \<longrightarrow> P (Node ex [Leaf a, t])"
    and result: "generateExpression rnd k ops lo hi vs = Inr (e, k')"
    and count: "0 < randInt lo hi (rnd k)"
  shows "\<exists>t. P t \<and> e = stack_of t"
proof -
  from result obtain valCount where
    loop: "generate_loop rnd ops vs 0 (randInt lo hi (rnd k)) ([], 0, Suc k) = Inr (e, valCount, k')"
    by (auto simp: generateExpression_def split: sum.splits)
  have "between_operators P ([], 0, Suc k)" by (simp add: between_operators_def)
  from generate_loop_binary [OF binary drawn leaf node this loop] count
  have "between_operators P (e, valCount, k')" and "e \<noteq> []" by simp_all
  then show ?thesis by (auto simp: between_operators_def)
qed

text \<open>
  With a registry of binary operators, as the default one, every stack that
  \<open>generateExpression\<close> returns after drawing at least one operator is the stack of a tree:
  it is well-formed and \<open>solve\<close> consumes exactly all of it.
\<close>

lemma generateExpression_binary:
  assumes binary: "\<forall>ex \<in> set ops. op_arity ex = 2"
    and result: "generateExpression rnd k ops lo hi vs = Inr (e, k')"
    and count: "0 < randInt lo hi (rnd k)"
  shows "\<exists>t. arity_ok t \<and> e = stack_of t \<and> well_formed e \<and> solve e = (value_of t, [])"
proof -
  have "\<forall>ex a t. ex \<in> set ops \<and> True \<and> arity_ok t \<longrightarrow> arity_ok (Node ex [Leaf a, t])"
    using binary by simp
  from generateExpression_tree [where V = "\<lambda>a. True" and P = arity_ok, OF binary _ _ this result count]
  obtain t where t: "arity_ok t" "e = stack_of t" by auto
  from solve_stack_of [OF t(1), of "[]"] well_formed_stack_of [OF t(1)] t
  show ?thesis by auto
qed

lemma generateExpression_binary_well_formed:
  assumes "random_source rnd" "1 \<le> lo" "lo \<le> hi" "ops \<noteq> []"
    and binary: "\<forall>ex \<in> set ops. op_arity ex = 2"
  shows "\<exists>e k' t. generateExpression rnd k ops lo hi vs = Inr (e, k')
           \<and> well_formed e \<and> arity_ok t \<and> e = stack_of t \<and> solve e = (value_of t, [])"
proof -
  from assms(1) have "0 \<le> rnd k" "rnd k < 1" by (simp_all add: random_source_def)
  from randInt_range(1) [OF this assms(3)] assms(2)
  have count: "0 < randInt lo hi (rnd k)" by simp
  from generate_loop_returns [OF assms(1) assms(4), of vs 0 "randInt lo hi (rnd k)" "([], 0, Suc k)"]
  obtain res where
    "generate_loop rnd ops vs 0 (randInt lo hi (rnd k)) ([], 0, Suc k) = Inr res" ..
  then obtain e k' where result: "generateExpression rnd k ops lo hi vs = Inr (e, k')"
    by (cases res) (simp add: generateExpression_def)
  from generateExpression_binary [OF binary result count] result
  show ?thesis by auto
qed

text \<open>
  Claim C1, at a registry that holds one operator of arity \<open>3\<close>, with
  \<open>minOps = maxOps = 2\<close> and the pool \<open>[1]\<close>. After an operator is pushed, \<open>valCount\<close> is
  decreased by \<open>1\<close> whatever the arity, so the second operator gets one new value where
  it needs two: consuming the returned stack from its end leaves an operand slot open
  when the tokens run out, and \<open>solve\<close> pops the missing operand off the empty array as
  \<open>undefined\<close>, which makes the answer \<open>NaN\<close>.
\<close>

theorem generateExpression_ternary:
  "generateExpression zero_draws 0 [sum3_op] 2 2 [Num (Fin 1)]
     = Inr ([lit 1, lit 1, lit 1, Op sum3_op, lit 1, Op sum3_op], 7)
   \<and> consume 1 (rev [lit 1, lit 1, lit 1, Op sum3_op, lit 1, Op sum3_op]) = Some 1
   \<and> \<not> well_formed [lit 1, lit 1, lit 1, Op sum3_op, lit 1, Op sum3_op]
   \<and> solve [lit 1, lit 1, lit 1, Op sum3_op, lit 1, Op sum3_op] = (Num NaN, [])"
proof -
  have g: "generateExpression zero_draws 0 [sum3_op] 2 2 [Num (Fin 1)]
     = Inr ([lit 1, lit 1, lit 1, Op sum3_op, lit 1, Op sum3_op], 7)"
    by (simp add: zero_draws_def generateExpression_def generate_loop.simps push_values.simps
      randInt_def element_def sum3_op_def value_at_def lit_def)
  have c: "consume 1 (rev [lit 1, lit 1, lit 1, Op sum3_op, lit 1, Op sum3_op]) = Some 1"
    by (simp add: lit_def sum3_op_def)
  have s: "solve [lit 1, lit 1, lit 1, Op sum3_op, lit 1, Op sum3_op] = (Num NaN, [])"
    by (simp add: solve.simps pop_def sum3_op_def lit_def arg_def numeral_3_eq_3)
  from g c s show ?thesis by (simp add: well_formed_def)
qed

subsection \<open>\<open>substitute\<close>\<close>

lemma expand_plain: "CHR ''$'' \<notin> set r \<Longrightarrow> expand m pre post r = r"
  by (induction m pre post r rule: expand.induct) auto

lemma replace_plain:
  "CHR ''$'' \<notin> set r \<Longrightarrow>
     replace p r s = (case split_first p s of None \<Rightarrow> s | Some (pre, post) \<Rightarrow> pre @ r @ post)"
  by (simp add: replace_def expand_plain split: option.splits)

lemma split_first_skip:
  "CHR ''$'' \<notin> set s \<Longrightarrow>
     split_first (CHR ''$'' # p) (s @ rest)
       = map_option (\<lambda>(pre, post). (s @ pre, post)) (split_first (CHR ''$'' # p) rest)"
  by (induction s) (auto split: option.splits simp: option.map_id0)

lemma decimal_digit: "i < 10 \<Longrightarrow> decimal i = [digit i]"
  by (simp add: decimal.simps)

lemma digit_not_dollar: "i < 10 \<Longrightarrow> digit i \<noteq> CHR ''$''"
proof -
  assume "i < 10"
  then have "i < length ''0123456789''" by simp
  then have "digit i \<in> set ''0123456789''" unfolding digit_def by (rule nth_mem)
  then show ?thesis by auto
qed

lemma digit_inj: "i < 10 \<Longrightarrow> j < 10 \<Longrightarrow> digit i = digit j \<Longrightarrow> i = j"
proof -
  assume "i < 10" "j < 10" "digit i = digit j"
  moreover have "distinct ''0123456789''" by simp
  ultimately show "i = j" unfolding digit_def by (simp add: nth_eq_iff_index_eq)
qed

lemma split_first_hole:
  assumes "i < 10" "j < 10" "j \<noteq> i"
  shows "split_first [CHR ''$'', digit i] (CHR ''$'' # digit j # rest)
       = map_option (\<lambda>(pre, post). (CHR ''$'' # digit j # pre, post))
           (split_first [CHR ''$'', digit i] rest)"
proof -
  have "digit i \<noteq> digit j" using assms digit_inj by blast
  moreover have "digit j \<noteq> CHR ''$''" using assms(2) by (rule digit_not_dollar)
  ultimately show ?thesis by (auto split: option.splits)
qed

lemma place_first:
  assumes "clean ps" "1 \<le> i" "i \<le> 9"
  shows "(case split_first [CHR ''$'', digit i] (template_text ps) of
            None \<Rightarrow> template_text ps
          | Some (pre, post) \<Rightarrow> pre @ x @ post) = template_text (place i x ps)"
  using assms(1)
proof (induction ps)
  case Nil
  show ?case by (simp add: template_text_def)
next
  case (Cons p ps)
  then have IH: "(case split_first [CHR ''$'', digit i] (template_text ps) of
            None \<Rightarrow> template_text ps
          | Some (pre, post) \<Rightarrow> pre @ x @ post) = template_text (place i x ps)"
    by (simp add: clean_def)
  show ?case
  proof (cases p)
    case (Text s)
    with Cons.prems have "CHR ''$'' \<notin> set s" by (simp add: clean_def)
    from split_first_skip [OF this, of "[digit i]" "template_text ps"] IH Text
    show ?thesis
      by (auto simp: template_text_def split: option.splits)
  next
    case (Hole j)
    with Cons.prems have j: "1 \<le> j" "j \<le> 9" by (simp_all add: clean_def)
    show ?thesis
    proof (cases "j = i")
      case True
      with Hole j show ?thesis
        by (simp add: template_text_def decimal_digit)
    next
      case False
      from split_first_hole [of i j "template_text ps"] False j assms(2,3) IH Hole
      show ?thesis
        by (auto simp: template_text_def decimal_digit split: option.splits)
    qed
  qed
qed

lemma replace_place:
  assumes "clean ps" "1 \<le> i" "i \<le> 9" "CHR ''$'' \<notin> set x"
  shows "replace (''$'' @ decimal i) x (template_text ps) = template_text (place i x ps)"
  using place_first [OF assms(1-3), of x] assms
  by (simp add: replace_plain decimal_digit)

lemma clean_place: "clean ps \<Longrightarrow> CHR ''$'' \<notin> set x \<Longrightarrow> clean (place i x ps)"
  unfolding clean_def by (induction i x ps rule: place.induct) auto

lemma substitute_loop_place_all:
  "clean ps \<Longrightarrow> i + length subs \<le> 9 \<Longrightarrow> \<forall>x \<in> set subs. CHR ''$'' \<notin> set x \<Longrightarrow>
     substitute_loop i (template_text ps) subs = template_text (place_all (Suc i) subs ps)"
proof (induction subs arbitrary: i ps)
  case Nil
  show ?case by simp
next
  case (Cons x subs)
  from Cons.prems have x: "CHR ''$'' \<notin> set x" and i: "1 \<le> Suc i" "Suc i \<le> 9" by simp_all
  from replace_place [OF Cons.prems(1) i x]
  have "substitute_loop i (template_text ps) (x # subs)
      = substitute_loop (Suc i) (template_text (place (Suc i) x ps)) subs"
    by simp
  also have "\<dots> = template_text (place_all (Suc (Suc i)) subs (place (Suc i) x ps))"
    using Cons.prems by (intro Cons.IH clean_place) auto
  finally show ?case by simp
qed

lemma place_once:
  "count_list ps (Hole i) \<le> 1 \<Longrightarrow>
     place i x ps = map (\<lambda>p. if p = Hole i then Text x else p) ps"
proof (induction i x ps rule: place.induct)
  case (1 i x)
  show ?case by simp
next
  case (2 i x s ps)
  then show ?case by simp
next
  case (3 i x j ps)
  show ?case
  proof (cases "j = i")
    case True
    with "3.prems" have "count_list ps (Hole i) = 0" by simp
    then have "Hole i \<notin> set ps" by (simp add: count_list_0_iff)
    then have "map (\<lambda>p. if p = Hole i then Text x else p) ps = ps"
      by (intro map_idI) auto
    with True show ?thesis by simp
  next
    case False
    with 3 show ?thesis by simp
  qed
qed

lemma count_place:
  "count_list (place i x ps) (Hole j) \<le> count_list ps (Hole j)"
  by (induction i x ps rule: place.induct) auto

lemma place_all_once:
  "\<forall>j. count_list ps (Hole j) \<le> 1 \<Longrightarrow> place_all i subs ps = map (fill i subs) ps"
proof (induction subs arbitrary: i ps)
  case Nil
  have "fill i [] p = p" for p by (cases p) simp_all
  then show ?case by simp
next
  case (Cons x subs)
  have once: "\<forall>j. count_list (place i x ps) (Hole j) \<le> 1"
    using Cons.prems count_place [of i x ps] le_trans by blast
  have point: "fill (Suc i) subs (if p = Hole i then Text x else p) = fill i (x # subs) p" for p
    by (cases p) (auto simp: nth_Cons')
  have "place_all i (x # subs) ps = map (fill (Suc i) subs) (place i x ps)"
    using Cons.IH [OF once] by simp
  also have "place i x ps = map (\<lambda>p. if p = Hole i then Text x else p) ps"
    using Cons.prems by (intro place_once) simp
  finally show ?case by (simp add: point)
qed

text \<open>
  Claim C10 as stated fails in two ways. The pattern for \<open>$1\<close> also matches the start of
  \<open>$10\<close>: in a template that names each of ten placeholders once, with \<open>$10\<close> first, the
  first operand lands where the tenth belongs, and neither \<open>$1\<close> nor the tenth operand
  is placed. And the search runs over the text as replaced so far, so a placeholder
  inside an operand already placed is found before the one of the template.
\<close>

theorem substitute_misplaces_counterexample:
  "substitute ''$10 $2 $3 $4 $5 $6 $7 $8 $9 $1''
      [''a'', ''b'', ''c'', ''d'', ''e'', ''f'', ''g'', ''h'', ''i'', ''j'']
     = ''a0 b c d e f g h i $1''
   \<and> substitute ''$1 + $2'' [''$2'', ''x''] = ''x + $2''"
  by (simp add: substitute_def replace_def decimal.simps digit_def)

text \<open>
  Claim C10 as amended, for at most nine operands without a dollar sign and a template
  whose text between the placeholders \<open>$1\<close> to \<open>$9\<close> has none. \<open>substitute\<close> takes the
  operands in turn and puts operand \<open>i\<close> where the first \<open>$i\<close> stands, and nowhere else.
  So when no placeholder occurs twice, every placeholder that has an operand is
  replaced by it at its own position; and a second \<open>$1\<close> stays as it is.
\<close>

theorem substitute_places:
  "(clean ps \<and> length subs \<le> 9 \<and> (\<forall>x \<in> set subs. CHR ''$'' \<notin> set x) \<longrightarrow>
      substitute (template_text ps) subs = template_text (place_all 1 subs ps))
   \<and> (clean ps \<and> length subs \<le> 9 \<and> (\<forall>x \<in> set subs. CHR ''$'' \<notin> set x)
        \<and> (\<forall>j. count_list ps (Hole j) \<le> 1) \<longrightarrow>
      substitute (template_text ps) subs = template_text (map (fill 1 subs) ps))
   \<and> (CHR ''$'' \<notin> set a \<union> set b \<union> set c \<union> set x \<longrightarrow>
      substitute (a @ ''$1'' @ b @ ''$1'' @ c) [x] = a @ x @ b @ ''$1'' @ c)"
proof (intro conjI impI)
  assume h: "clean ps \<and> length subs \<le> 9 \<and> (\<forall>x \<in> set subs. CHR ''$'' \<notin> set x)"
  then show "substitute (template_text ps) subs = template_text (place_all 1 subs ps)"
    unfolding substitute_def using substitute_loop_place_all [of ps 0 subs] by simp
next
  assume h: "clean ps \<and> length subs \<le> 9 \<and> (\<forall>x \<in> set subs. CHR ''$'' \<notin> set x)
        \<and> (\<forall>j. count_list ps (Hole j) \<le> 1)"
  then have "substitute (template_text ps) subs = template_text (place_all 1 subs ps)"
    unfolding substitute_def using substitute_loop_place_all [of ps 0 subs] by simp
  also have "place_all 1 subs ps = map (fill 1 subs) ps"
    using h by (intro place_all_once) simp
  finally show "substitute (template_text ps) subs = template_text (map (fill 1 subs) ps)" .
next
  assume h: "CHR ''$'' \<notin> set a \<union> set b \<union> set c \<union> set x"
  let ?ps = "[Text a, Hole 1, Text b, Hole 1, Text c]"
  have "clean ?ps" using h by (simp add: clean_def)
  from substitute_loop_place_all [OF this, of 0 "[x]"] h
  have "substitute (template_text ?ps) [x] = template_text (place_all 1 [x] ?ps)"
    by (simp add: substitute_def)
  then show "substitute (a @ ''$1'' @ b @ ''$1'' @ c) [x] = a @ x @ b @ ''$1'' @ c"
    by (simp add: template_text_def decimal.simps digit_def)
qed

theorem substitute_places_witness:
  "substitute ([backslash] @ ''frac{$1}{$2}'') [''3'', ''4 - 5''] = [backslash] @ ''frac{3}{4 - 5}''
   \<and> substitute ''$2 - $1'' [''3'', ''4 - 5''] = ''4 - 5 - 3''
   \<and> substitute ''$1^{$1}'' [''7''] = ''7^{$1}''"
proof -
  let ?frac = "[Text [backslash, CHR ''f'', CHR ''r'', CHR ''a'', CHR ''c'', CHR ''{''], Hole 1,
                Text ''}{'', Hole 2, Text ''}'']"
  let ?minus = "[Hole 2, Text '' - '', Hole 1]"
  let ?subs = "[''3'', ''4 - 5'']"
  have frac: "clean ?frac \<and> length ?subs \<le> 9 \<and> (\<forall>x \<in> set ?subs. CHR ''$'' \<notin> set x)"
    by (simp add: clean_def backslash_def)
  have minus: "clean ?minus \<and> length ?subs \<le> 9 \<and> (\<forall>x \<in> set ?subs. CHR ''$'' \<notin> set x)
      \<and> (\<forall>j. count_list ?minus (Hole j) \<le> 1)"
    by (simp add: clean_def)
  have power: "CHR ''$'' \<notin> set [] \<union> set ''^{'' \<union> set ''}'' \<union> set ''7''"
    by simp
  have a: "substitute (template_text ?frac) ?subs = template_text (place_all 1 ?subs ?frac)"
    using substitute_places [of ?frac ?subs, THEN conjunct1, THEN mp, OF frac] .
  have b: "substitute (template_text ?minus) ?subs = template_text (map (fill 1 ?subs) ?minus)"
    using substitute_places [of ?minus ?subs, THEN conjunct2, THEN conjunct1, THEN mp, OF minus] .
  have c: "substitute ([] @ ''$1'' @ ''^{'' @ ''$1'' @ ''}'') [''7''] = [] @ ''7'' @ ''^{'' @ ''$1'' @ ''}''"
    using substitute_places [of "[]" "[]" "[]" "''^{''" "''}''" "''7''",
        THEN conjunct2, THEN conjunct2, THEN mp, OF power] .
  from a b c show ?thesis
    by (simp add: template_text_def decimal.simps digit_def)
qed

subsection \<open>The text of \<open>latex\<close> against the value of \<open>solve\<close>\<close>













lemma op_fields [simp]:
  "op_precedence plus_op = 5" "op_associative plus_op" "op_doGroup plus_op"
  "op_latex plus_op = ''$1 + $2''" "op_arity plus_op = 2" "op_op plus_op = binary js_add"
  "op_precedence minus_op = 5" "\<not> op_associative minus_op" "op_doGroup minus_op"
  "op_latex minus_op = ''$1 - $2''" "op_arity minus_op = 2" "op_op minus_op = binary js_sub"
  "op_precedence times_op = 3" "op_associative times_op" "op_doGroup times_op"
  "op_latex times_op = ''$1 '' @ [backslash] @ ''times $2''" "op_arity times_op = 2"
  "op_op times_op = binary js_mul"
  "op_precedence frac_op = 3" "\<not> op_associative frac_op" "\<not> op_doGroup frac_op"
  "op_latex frac_op = [backslash] @ ''frac{$1}{$2}''" "op_arity frac_op = 2"
  "op_op frac_op = binary js_div"
  by (simp_all add: plus_op_def minus_op_def times_op_def frac_op_def)





lemma stops_close [simp]:
  "stops (CHR '')'' # x)" "stops (CHR ''}'' # x)" "stops (frac_middle @ x)" "stops []"
  by (simp_all add: stops_def frac_middle_def)










lemma num_binary [simp]:
  "num (Leaf v) = toNumber v"
  "num (Node plus_op [Leaf v, t]) = js_add (toNumber v) (num t)"
  "num (Node minus_op [Leaf v, t]) = js_sub (toNumber v) (num t)"
  "num (Node times_op [Leaf v, t]) = js_mul (toNumber v) (num t)"
  "num (Node frac_op [Leaf v, t]) = js_div (toNumber v) (num t)"
  by (simp_all add: num_def binary_def arg_def)



























end
